theory Spec2Isabelle
  imports Complex_Main
begin

section \<open>Data model of the planner board (types.ts, MainBoard.tsx)\<close>

text \<open>
  The records follow the TypeScript interfaces \<^verbatim>\<open>Module\<close>, \<^verbatim>\<open>Semester\<close>,
  \<^verbatim>\<open>AcademicYear\<close> and \<^verbatim>\<open>StagedModule\<close>. JavaScript numbers that hold years and
  identifiers are integers here. The credits of a course (\<^verbatim>\<open>units\<close>, \<^verbatim>\<open>mcs\<close>,
  \<^verbatim>\<open>credits\<close>) are JavaScript numbers that the backend delivers as decimals
  (\<^verbatim>\<open>DECIMAL(4,1)\<close>): a value of \<open>jsnum\<close> is a number value, finite ones given by
  the rational they denote. The optional field \<^verbatim>\<open>units?\<close> is a \<open>jsnum option\<close>; the
  optional flags \<^verbatim>\<open>fluff?\<close> and \<^verbatim>\<open>isExchange?\<close> are booleans (an absent flag is
  falsy, hence \<open>False\<close>).
\<close>

datatype jsnum = Finite rat | PosInfinity | NegInfinity | NaN

text \<open>\<^verbatim>\<open>x || 4\<close> on a number: zero and NaN are falsy.\<close>

definition jsFalsy :: "jsnum \<Rightarrow> bool" where
  "jsFalsy x = (x = Finite 0 \<or> x = NaN)"

definition orFour :: "jsnum \<Rightarrow> jsnum" where
  "orFour x = (if jsFalsy x then Finite 4 else x)"

record Module =
  code :: string
  title :: string
  units :: "jsnum option"
  fluff :: bool

record Semester =
  sem_id :: int
  name :: string
  sem_units :: int
  modules :: "Module list"
  isExchange :: bool

record AcademicYear =
  year :: int
  label :: string
  academicYear :: string
  totalUnits :: int
  semesters :: "Semester list"

datatype StagedType = Taken | Exempted

record StagedModule =
  staged_id :: string
  staged_code :: string
  staged_type :: StagedType
  mcs :: jsnum

subsection \<open>Semester order\<close>

text \<open>
  \<^verbatim>\<open>sem.name.includes('1') ? 1 : 2\<close> and
  \<^verbatim>\<open>year.year * 10 + (sem.name.includes('1') ? 1 : 2)\<close>, as written in
  \<^verbatim>\<open>allTakenModules\<close>, \<^verbatim>\<open>checkAllConstraints\<close> and \<^verbatim>\<open>progressionStats\<close>.
\<close>

definition semNumOf :: "Semester \<Rightarrow> int" where
  "semNumOf s = (if CHR ''1'' \<in> set (name s) then 1 else 2)"

definition semOrderOf :: "AcademicYear \<Rightarrow> Semester \<Rightarrow> int" where
  "semOrderOf y s = year y * 10 + semNumOf s"

subsection \<open>The catalog collaborator (api.ts)\<close>

text \<open>
  \<^verbatim>\<open>checkPrerequisites\<close> and \<^verbatim>\<open>checkModuleOffered\<close> call the backend and throw when
  the response is not ok. The backend is a parameter of the model: a function that returns
  \<open>None\<close> where the promise rejects and the decoded JSON otherwise.
\<close>

record PrereqCheckResult =
  satisfied :: bool
  missing :: "string list"

record ModuleOfferedResult =
  offered :: bool

type_synonym prereqApi = "string \<Rightarrow> string list \<Rightarrow> PrereqCheckResult option"
type_synonym offeredApi = "string \<Rightarrow> int \<Rightarrow> ModuleOfferedResult option"

type_synonym violations = "(string \<rightharpoonup> string list) \<times> (string \<rightharpoonup> string)"

section \<open>Constraint validator: checkAllConstraints\<close>

text \<open>
  \<^verbatim>\<open>completedBefore\<close>: the codes of every semester whose order is strictly smaller
  than \<open>semOrder\<close>, in plan order, followed by the codes of all staged modules.
\<close>

definition completedBefore :: "AcademicYear list \<Rightarrow> StagedModule list \<Rightarrow> int \<Rightarrow> string list" where
  "completedBefore ays staged semOrder =
     concat (map (\<lambda>y. concat (map (\<lambda>s.
        if semOrderOf y s < semOrder then map code (modules s) else []) (semesters y))) ays)
     @ map staged_code staged"

definition offeringMessage :: "int \<Rightarrow> string" where
  "offeringMessage semNum = ''Not offered in Semester '' @ (if semNum = 1 then ''1'' else ''2'')"

text \<open>
  The body of the callback given to \<^verbatim>\<open>sem.modules.map\<close>: a fluff module returns at
  once; otherwise each of the two lookups sits in its own \<^verbatim>\<open>try/catch\<close> that ignores
  the exception. The callbacks of one semester are joined by \<^verbatim>\<open>Promise.all\<close>; each
  writes only under its own module code, and the model runs them in list order.
\<close>

definition checkModule ::
  "prereqApi \<Rightarrow> offeredApi \<Rightarrow> string list \<Rightarrow> int \<Rightarrow> Module \<Rightarrow> violations \<Rightarrow> violations" where
  "checkModule cp co completed semNum m acc =
     (if fluff m then acc
      else
        let pV = (case cp (code m) completed of
                    None \<Rightarrow> fst acc
                  | Some r \<Rightarrow>
                      if \<not> satisfied r \<and> length (missing r) > 0
                      then (fst acc)(code m \<mapsto> missing r) else fst acc);
            oV = (case co (code m) semNum of
                    None \<Rightarrow> snd acc
                  | Some r \<Rightarrow>
                      if \<not> offered r
                      then (snd acc)(code m \<mapsto> offeringMessage semNum) else snd acc)
        in (pV, oV))"

definition checkSemester ::
  "prereqApi \<Rightarrow> offeredApi \<Rightarrow> AcademicYear list \<Rightarrow> StagedModule list \<Rightarrow>
     AcademicYear \<Rightarrow> Semester \<Rightarrow> violations \<Rightarrow> violations" where
  "checkSemester cp co ays staged y s acc =
     fold (checkModule cp co (completedBefore ays staged (semOrderOf y s)) (semNumOf s))
       (modules s) acc"

definition checkYear ::
  "prereqApi \<Rightarrow> offeredApi \<Rightarrow> AcademicYear list \<Rightarrow> StagedModule list \<Rightarrow>
     AcademicYear \<Rightarrow> violations \<Rightarrow> violations" where
  "checkYear cp co ays staged y acc = fold (checkSemester cp co ays staged y) (semesters y) acc"

definition checkAllConstraints ::
  "prereqApi \<Rightarrow> offeredApi \<Rightarrow> AcademicYear list \<Rightarrow> StagedModule list \<Rightarrow> violations" where
  "checkAllConstraints cp co ays staged =
     fold (checkYear cp co ays staged) ays (Map.empty, Map.empty)"

text \<open>
  The display reads the maps back with \<^verbatim>\<open>prereqViolations.get(mod.code) || []\<close>.
\<close>

definition missingPrereqs :: "violations \<Rightarrow> string \<Rightarrow> string list" where
  "missingPrereqs v c = (case fst v c of None \<Rightarrow> [] | Some ms \<Rightarrow> ms)"

subsection \<open>Placements: the plan as a flat list\<close>

definition placements :: "AcademicYear list \<Rightarrow> (AcademicYear \<times> Semester \<times> Module) list" where
  "placements ays =
     concat (map (\<lambda>y. concat (map (\<lambda>s. map (\<lambda>m. (y, s, m)) (modules s)) (semesters y))) ays)"

definition planCodes :: "AcademicYear list \<Rightarrow> string list" where
  "planCodes ays = map (\<lambda>(y, s, m). code m) (placements ays)"

definition checkPlacement ::
  "prereqApi \<Rightarrow> offeredApi \<Rightarrow> AcademicYear list \<Rightarrow> StagedModule list \<Rightarrow>
     AcademicYear \<times> Semester \<times> Module \<Rightarrow> violations \<Rightarrow> violations" where
  "checkPlacement cp co ays staged =
     (\<lambda>(y, s, m). checkModule cp co (completedBefore ays staged (semOrderOf y s)) (semNumOf s) m)"

definition prereqEntry :: "prereqApi \<Rightarrow> string list \<Rightarrow> Module \<Rightarrow> string list option" where
  "prereqEntry cp completed m =
     (case cp (code m) completed of
        None \<Rightarrow> None
      | Some r \<Rightarrow> if \<not> satisfied r \<and> missing r \<noteq> [] then Some (missing r) else None)"


definition offeringEntry :: "offeredApi \<Rightarrow> int \<Rightarrow> Module \<Rightarrow> string option" where
  "offeringEntry co semNum m =
     (case co (code m) semNum of
        None \<Rightarrow> None
      | Some r \<Rightarrow> if \<not> offered r then Some (offeringMessage semNum) else None)"


text \<open>The key and the entries that one placement contributes to the two maps.\<close>

definition placementCode :: "AcademicYear \<times> Semester \<times> Module \<Rightarrow> string" where
  "placementCode p = code (snd (snd p))"

definition placementPrereqEntry ::
  "prereqApi \<Rightarrow> AcademicYear list \<Rightarrow> StagedModule list \<Rightarrow>
     AcademicYear \<times> Semester \<times> Module \<Rightarrow> string list option" where
  "placementPrereqEntry cp ays staged p =
     (if fluff (snd (snd p)) then None
      else prereqEntry cp (completedBefore ays staged (semOrderOf (fst p) (fst (snd p))))
             (snd (snd p)))"

definition placementOfferingEntry ::
  "offeredApi \<Rightarrow> AcademicYear \<times> Semester \<times> Module \<Rightarrow> string option" where
  "placementOfferingEntry co p =
     (if fluff (snd (snd p)) then None
      else offeringEntry co (semNumOf (fst (snd p))) (snd (snd p)))"

section \<open>Current-semester pointer and progress snapshot\<close>

subsection \<open>Parsing the pointer\<close>

definition isDigit :: "char \<Rightarrow> bool" where
  "isDigit c = (c \<in> set ''0123456789'')"

definition isUpper :: "char \<Rightarrow> bool" where
  "isUpper c = (c \<in> set ''ABCDEFGHIJKLMNOPQRSTUVWXYZ'')"

text \<open>The value of a decimal digit: its position in the list of digits.\<close>

definition digitVal :: "char \<Rightarrow> int" where
  "digitVal c =
     (if isDigit c then int (length (takeWhile (\<lambda>d. d \<noteq> c) ''0123456789'')) else 0)"

text \<open>
  \<^verbatim>\<open>currentSemester.match(/Y(\d)S(\d)/)\<close>: the pattern is not anchored, so the
  leftmost position where it fits gives the two digits.
\<close>

fun matchYS :: "string \<Rightarrow> (int \<times> int) option" where
  "matchYS (a # b # c # d # rest) =
     (if a = CHR ''Y'' \<and> isDigit b \<and> c = CHR ''S'' \<and> isDigit d
      then Some (digitVal b, digitVal d)
      else matchYS (b # c # d # rest))"
| "matchYS _ = None"

definition parseCurrentSemester :: "string \<Rightarrow> int \<times> int" where
  "parseCurrentSemester currentSemester =
     (if currentSemester = ''Y0S0'' then (0, 0)
      else case matchYS currentSemester of
             Some p \<Rightarrow> p
           | None \<Rightarrow> (1, 1))"

subsection \<open>progressionStats\<close>

text \<open>
  \<^verbatim>\<open>mod.mcs || 4\<close> and \<^verbatim>\<open>mod.units || 4\<close>: zero, NaN and an absent value are
  falsy.
\<close>

definition mcsOf :: "StagedModule \<Rightarrow> jsnum" where
  "mcsOf m = orFour (mcs m)"

definition creditOf :: "Module \<Rightarrow> jsnum" where
  "creditOf m = (case units m of None \<Rightarrow> Finite 4 | Some u \<Rightarrow> orFour u)"

text \<open>
  The three counters are JavaScript numbers and \<^verbatim>\<open>+=\<close> adds doubles, which rounds.
  The addition is the parameter \<open>add\<close> of the definitions below; nothing is assumed
  about it, and each counter is updated in the order of the loops.
\<close>

record ProgAcc =
  acc_completed :: jsnum
  acc_current :: jsnum
  acc_planned :: jsnum
  allCodes :: "string set"

record ProgressionStats =
  completed :: jsnum
  current :: jsnum
  planned :: jsnum
  total :: jsnum

definition exemptedStep ::
  "(jsnum \<Rightarrow> jsnum \<Rightarrow> jsnum) \<Rightarrow> StagedModule \<Rightarrow> ProgAcc \<Rightarrow> ProgAcc" where
  "exemptedStep add m a =
     (if staged_type m = Exempted \<and> staged_code m \<notin> allCodes a
      then a\<lparr>acc_completed := add (acc_completed a) (mcsOf m),
             allCodes := insert (staged_code m) (allCodes a)\<rparr>
      else a)"

definition moduleStep ::
  "(jsnum \<Rightarrow> jsnum \<Rightarrow> jsnum) \<Rightarrow> int \<Rightarrow> int \<Rightarrow> Module \<Rightarrow> ProgAcc \<Rightarrow> ProgAcc" where
  "moduleStep add currentSemId semId m a =
     (if code m \<notin> allCodes a
      then (let mcs' = creditOf m;
                a' = (if semId < currentSemId
                      then a\<lparr>acc_completed := add (acc_completed a) mcs'\<rparr>
                      else if semId = currentSemId
                      then a\<lparr>acc_current := add (acc_current a) mcs'\<rparr>
                      else a\<lparr>acc_planned := add (acc_planned a) mcs'\<rparr>)
            in a'\<lparr>allCodes := insert (code m) (allCodes a')\<rparr>)
      else a)"

definition progressionAcc ::
  "(jsnum \<Rightarrow> jsnum \<Rightarrow> jsnum) \<Rightarrow> int \<Rightarrow> int \<Rightarrow> AcademicYear list \<Rightarrow> StagedModule list
     \<Rightarrow> ProgAcc" where
  "progressionAcc add currentYearNum currentSemNum ays staged =
     (let currentSemId = currentYearNum * 10 + currentSemNum;
          a0 = \<lparr>acc_completed = Finite 0, acc_current = Finite 0, acc_planned = Finite 0,
                allCodes = {}\<rparr>;
          a1 = fold (exemptedStep add) staged a0
      in fold (\<lambda>y. fold (\<lambda>s. fold
                (moduleStep add currentSemId
                   (year y * 10 + (if CHR ''1'' \<in> set (name s) then 1 else 2)))
                (modules s)) (semesters y)) ays a1)"

definition progressionStats ::
  "(jsnum \<Rightarrow> jsnum \<Rightarrow> jsnum) \<Rightarrow> int \<Rightarrow> int \<Rightarrow> AcademicYear list \<Rightarrow> StagedModule list
     \<Rightarrow> ProgressionStats" where
  "progressionStats add currentYearNum currentSemNum ays staged =
     (let a = progressionAcc add currentYearNum currentSemNum ays staged
      in \<lparr>completed = acc_completed a, current = acc_current a, planned = acc_planned a,
          total = add (add (acc_completed a) (acc_current a)) (acc_planned a)\<rparr>)"

subsection \<open>What the snapshot is to hold\<close>

text \<open>
  The courses in the order in which they are met: the exempted courses first, then the
  placed courses in plan order, each with its code, its credits (4 where the credit is
  absent, zero or NaN) and the total it belongs to. An exempted course belongs to the
  completed total, a placed course to the total that the order of its semester gives.
\<close>

datatype Bucket = Completed | Current | Planned

definition spec_bucket :: "int \<Rightarrow> int \<Rightarrow> Bucket" where
  "spec_bucket currentOrder semOrder =
     (if semOrder < currentOrder then Completed
      else if semOrder = currentOrder then Current
      else Planned)"

definition spec_exemptedEntry :: "StagedModule \<Rightarrow> string \<times> jsnum \<times> Bucket" where
  "spec_exemptedEntry m =
     (staged_code m, (if mcs m = Finite 0 \<or> mcs m = NaN then Finite 4 else mcs m), Completed)"

definition spec_placedEntry ::
  "int \<Rightarrow> AcademicYear \<times> Semester \<times> Module \<Rightarrow> string \<times> jsnum \<times> Bucket" where
  "spec_placedEntry currentOrder =
     (\<lambda>(y, s, m).
        (code m,
         (case units m of
            None \<Rightarrow> Finite 4
          | Some u \<Rightarrow> if u = Finite 0 \<or> u = NaN then Finite 4 else u),
         spec_bucket currentOrder (semOrderOf y s)))"

definition spec_entries ::
  "int \<Rightarrow> AcademicYear list \<Rightarrow> StagedModule list \<Rightarrow> (string \<times> jsnum \<times> Bucket) list" where
  "spec_entries currentOrder ays staged =
     map spec_exemptedEntry (filter (\<lambda>m. staged_type m = Exempted) staged)
     @ map (spec_placedEntry currentOrder) (placements ays)"

text \<open>
  A course is counted where its code occurs for the first time: the entries whose code
  no earlier entry has.
\<close>

definition spec_counted :: "('k \<times> 'v) list \<Rightarrow> ('k \<times> 'v) list" where
  "spec_counted es =
     map (\<lambda>i. es ! i)
       (filter (\<lambda>i. fst (es ! i) \<notin> fst ` set (take i es)) [0..<length es])"

text \<open>The credits of the entries of one total, added from the left, starting from 0.\<close>

definition spec_total ::
  "(jsnum \<Rightarrow> jsnum \<Rightarrow> jsnum) \<Rightarrow> Bucket \<Rightarrow> (string \<times> jsnum \<times> Bucket) list \<Rightarrow> jsnum" where
  "spec_total add b es =
     foldl add (Finite 0) (map (\<lambda>e. fst (snd e)) (filter (\<lambda>e. snd (snd e) = b) es))"

text \<open>Helpers of the proofs: the entries counted after a set of codes, and one step.\<close>

fun countedFrom :: "'k set \<Rightarrow> ('k \<times> 'v) list \<Rightarrow> ('k \<times> 'v) list" where
  "countedFrom seen [] = []"
| "countedFrom seen (e # es) =
     (if fst e \<in> seen then countedFrom seen es
      else e # countedFrom (insert (fst e) seen) es)"

definition entryStep ::
  "(jsnum \<Rightarrow> jsnum \<Rightarrow> jsnum) \<Rightarrow> string \<times> jsnum \<times> Bucket \<Rightarrow> ProgAcc \<Rightarrow> ProgAcc" where
  "entryStep add e a =
     (if fst e \<in> allCodes a then a
      else (case snd (snd e) of
              Completed \<Rightarrow> a\<lparr>acc_completed := add (acc_completed a) (fst (snd e)),
                              allCodes := insert (fst e) (allCodes a)\<rparr>
            | Current \<Rightarrow> a\<lparr>acc_current := add (acc_current a) (fst (snd e)),
                            allCodes := insert (fst e) (allCodes a)\<rparr>
            | Planned \<Rightarrow> a\<lparr>acc_planned := add (acc_planned a) (fst (snd e)),
                            allCodes := insert (fst e) (allCodes a)\<rparr>))"

definition bucketCredits :: "Bucket \<Rightarrow> (string \<times> jsnum \<times> Bucket) list \<Rightarrow> jsnum list" where
  "bucketCredits b es = map (\<lambda>e. fst (snd e)) (filter (\<lambda>e. snd (snd e) = b) es)"

definition accOf :: "Bucket \<Rightarrow> ProgAcc \<Rightarrow> jsnum" where
  "accOf b a = (case b of Completed \<Rightarrow> acc_completed a | Current \<Rightarrow> acc_current a
                | Planned \<Rightarrow> acc_planned a)"


subsection \<open>Sibling computations of the board\<close>

text \<open>
  \<^verbatim>\<open>handleExportPlan\<close> numbers the semesters by their name: 1 unless the name is
  \<^verbatim>\<open>Semester 2\<close> (2), \<^verbatim>\<open>Special Term 1\<close> (3) or \<^verbatim>\<open>Special Term 2\<close> (4).
\<close>

definition exportSemNum :: "Semester \<Rightarrow> int" where
  "exportSemNum sem =
     (if name sem = ''Semester 2'' then 2
      else if name sem = ''Special Term 1'' then 3
      else if name sem = ''Special Term 2'' then 4
      else 1)"

text \<open>
  The total shown in the header of a year:
  \<^verbatim>\<open>year.semesters.reduce((acc, sem) => acc + (sem.isExchange ? 0 : sem.modules.length * 4), 0)\<close>.
\<close>

definition yearTotalUnits :: "AcademicYear \<Rightarrow> int" where
  "yearTotalUnits y =
     foldl (\<lambda>acc sem. acc + (if isExchange sem then 0 else int (length (modules sem)) * 4)) 0
       (semesters y)"

text \<open>
  The plan without its special terms and exchange semesters, which is what the
  specification describes as the input of credit accounting and ordering.
\<close>

definition spec_regularSemestersOnly :: "AcademicYear list \<Rightarrow> AcademicYear list" where
  "spec_regularSemestersOnly ays =
     map (\<lambda>y. y\<lparr>semesters :=
        filter (\<lambda>s. (name s = ''Semester 1'' \<or> name s = ''Semester 2'') \<and> \<not> isExchange s)
          (semesters y)\<rparr>) ays"

text \<open>A number addition for the examples: exact on finite numbers.\<close>

definition exactAdd :: "jsnum \<Rightarrow> jsnum \<Rightarrow> jsnum" where
  "exactAdd x y = (case (x, y) of (Finite a, Finite b) \<Rightarrow> Finite (a + b) | _ \<Rightarrow> NaN)"

section \<open>Requirement fulfilment matcher\<close>

record ReqCourse =
  req_code :: string
  req_title :: string

record Requirement =
  category :: string
  requiredUnits :: int
  courses :: "ReqCourse list"

definition REQUIREMENTS :: "Requirement list" where
  "REQUIREMENTS =
   [\<lparr>category = ''Common Curriculum'', requiredUnits = 40, courses =
      [\<lparr>req_code = ''CS1101S'', req_title = ''Digital Literacy''\<rparr>,
       \<lparr>req_code = ''ES2660'', req_title = ''Critique and Expression''\<rparr>,
       \<lparr>req_code = ''GEC%'', req_title = ''Cultures and Connections''\<rparr>,
       \<lparr>req_code = ''GEA1000'', req_title = ''Data Literacy''\<rparr>,
       \<lparr>req_code = ''GES%'', req_title = ''Singapore Studies''\<rparr>,
       \<lparr>req_code = ''GEN%'', req_title = ''Communities and Engagement''\<rparr>]\<rparr>,
    \<lparr>category = ''Computer Science Foundation'', requiredUnits = 36, courses =
      [\<lparr>req_code = ''CS1231S'', req_title = ''Discrete Structures''\<rparr>,
       \<lparr>req_code = ''CS2030S'', req_title = ''Programming Methodology II''\<rparr>,
       \<lparr>req_code = ''CS2040S'', req_title = ''Data Structures & Algos''\<rparr>,
       \<lparr>req_code = ''CS2100'', req_title = ''Computer Organisation''\<rparr>,
       \<lparr>req_code = ''CS2106'', req_title = ''Operating Systems''\<rparr>,
       \<lparr>req_code = ''CS3230'', req_title = ''Design & Analysis of Algorithms''\<rparr>]\<rparr>,
    \<lparr>category = ''CS Breadth & Depth'', requiredUnits = 32, courses =
      [\<lparr>req_code = ''Focus 4K'', req_title = ''Focus Area 4000-level (required)''\<rparr>,
       \<lparr>req_code = ''Focus 2'', req_title = ''Focus Area Course 2''\<rparr>,
       \<lparr>req_code = ''Focus 3'', req_title = ''Focus Area Course 3''\<rparr>,
       \<lparr>req_code = ''CS4%'', req_title = ''4K Elective 1''\<rparr>,
       \<lparr>req_code = ''CS4%'', req_title = ''4K Elective 2''\<rparr>,
       \<lparr>req_code = ''CS4%'', req_title = ''4K Elective 3''\<rparr>,
       \<lparr>req_code = ''IE/FYP'', req_title = ''Industry Exp. or FYP (self-check)''\<rparr>,
       \<lparr>req_code = ''Project'', req_title = ''Team Project / Elective''\<rparr>]\<rparr>,
    \<lparr>category = ''Math & Sciences'', requiredUnits = 12, courses =
      [\<lparr>req_code = ''MA1521'', req_title = ''Calculus for Computing''\<rparr>,
       \<lparr>req_code = ''MA1522'', req_title = ''Linear Algebra''\<rparr>,
       \<lparr>req_code = ''ST2334'', req_title = ''Probability & Statistics''\<rparr>]\<rparr>,
    \<lparr>category = ''Unrestricted Electives'', requiredUnits = 40, courses =
      [\<lparr>req_code = ''UE 1'', req_title = ''General Elective''\<rparr>,
       \<lparr>req_code = ''UE 2'', req_title = ''General Elective''\<rparr>,
       \<lparr>req_code = ''UE 3'', req_title = ''General Elective''\<rparr>,
       \<lparr>req_code = ''UE 4'', req_title = ''General Elective''\<rparr>,
       \<lparr>req_code = ''UE 5'', req_title = ''General Elective''\<rparr>,
       \<lparr>req_code = ''UE 6'', req_title = ''General Elective''\<rparr>,
       \<lparr>req_code = ''UE 7'', req_title = ''General Elective''\<rparr>,
       \<lparr>req_code = ''UE 8'', req_title = ''General Elective''\<rparr>,
       \<lparr>req_code = ''UE 9'', req_title = ''General Elective''\<rparr>,
       \<lparr>req_code = ''UE 10'', req_title = ''General Elective''\<rparr>]\<rparr>]"

subsection \<open>allTakenModules\<close>

text \<open>
  \<^verbatim>\<open>new Set([...])\<close> keeps the first occurrence of every element, in insertion order.
\<close>

definition newSet :: "'a list \<Rightarrow> 'a list" where
  "newSet xs = rev (remdups (rev xs))"

definition allTakenModules ::
  "int \<Rightarrow> int \<Rightarrow> AcademicYear list \<Rightarrow> StagedModule list \<Rightarrow> string list" where
  "allTakenModules currentYearNum currentSemNum ays staged =
     (let currentSemId = currentYearNum * 10 + currentSemNum;
          planMods = concat (map (\<lambda>y. concat (map (\<lambda>s.
                       let sId = year y * 10 + (if CHR ''1'' \<in> set (name s) then 1 else 2)
                       in if sId < currentSemId then map code (modules s) else [])
                     (semesters y))) ays);
          stagedMods = map staged_code staged
      in newSet (planMods @ stagedMods))"

subsection \<open>String helpers of checkRequirement\<close>

text \<open>
  \<^verbatim>\<open>code.match(/^([A-Z]{2,4}\d{4})/)\<close>: the greedy quantifier tries four letters,
  then three, then two, each followed by four digits.
\<close>

definition matchesBase :: "nat \<Rightarrow> string \<Rightarrow> bool" where
  "matchesBase n s =
     (n + 4 \<le> length s \<and> list_all isUpper (take n s) \<and> list_all isDigit (take 4 (drop n s)))"

definition getBaseCode :: "string \<Rightarrow> string" where
  "getBaseCode s =
     (if matchesBase 4 s then take 8 s
      else if matchesBase 3 s then take 7 s
      else if matchesBase 2 s then take 6 s
      else s)"

definition startsWith :: "string \<Rightarrow> string \<Rightarrow> bool" where
  "startsWith s p = (take (length p) s = p)"

definition endsWithPercent :: "string \<Rightarrow> bool" where
  "endsWithPercent s = (s \<noteq> [] \<and> last s = CHR ''%'')"

fun splitOn :: "char \<Rightarrow> string \<Rightarrow> string list" where
  "splitOn d [] = [[]]"
| "splitOn d (c # cs) =
     (if c = d then [] # splitOn d cs
      else (case splitOn d cs of [] \<Rightarrow> [[c]] | p # ps \<Rightarrow> (c # p) # ps))"

text \<open>
  \<^verbatim>\<open>parseInt\<close> without a radix: leading white space, an optional sign, then the
  longest run of decimal digits (hexadecimal digits after \<^verbatim>\<open>0x\<close>); \<open>None\<close> is NaN.
  A string is a list of 8-bit characters, the code units U+0000 to U+00FF: of the white
  space and line terminators that JavaScript skips, these are TAB, LF, VT, FF, CR, SP and
  NBSP (U+00A0); the others (U+FEFF, U+1680, U+2000 and above) are no characters of a
  string here. The value is the integer that the digits denote; JavaScript rounds it to a
  double, which is the same number below \<open>2 ^ 53\<close>.
\<close>

definition isWhite :: "char \<Rightarrow> bool" where
  "isWhite c =
     (c \<in> {CHR 0x09, CHR 0x0A, CHR 0x0B, CHR 0x0C, CHR 0x0D, CHR 0x20, CHR 0xA0})"

definition isHexDigit :: "char \<Rightarrow> bool" where
  "isHexDigit c = (c \<in> set ''0123456789abcdefABCDEF'')"

definition hexVal :: "char \<Rightarrow> int" where
  "hexVal c =
     (if c \<in> set ''aA'' then 10 else if c \<in> set ''bB'' then 11 else if c \<in> set ''cC'' then 12
      else if c \<in> set ''dD'' then 13 else if c \<in> set ''eE'' then 14
      else if c \<in> set ''fF'' then 15 else digitVal c)"

definition parseInt :: "string \<Rightarrow> int option" where
  "parseInt s =
     (let s1 = dropWhile isWhite s;
          neg = (s1 \<noteq> [] \<and> hd s1 = CHR ''-'');
          s2 = (if s1 \<noteq> [] \<and> (hd s1 = CHR ''-'' \<or> hd s1 = CHR ''+'') then tl s1 else s1);
          hex = (take 2 s2 = ''0x'' \<or> take 2 s2 = ''0X'');
          ds = (if hex then takeWhile isHexDigit (drop 2 s2) else takeWhile isDigit s2);
          v = (if hex then foldl (\<lambda>a c. a * 16 + hexVal c) 0 ds
               else foldl (\<lambda>a c. a * 10 + digitVal c) 0 ds)
      in if ds = [] then None else Some (if neg then - v else v))"

subsection \<open>checkRequirement\<close>

definition consumedStep :: "ReqCourse \<Rightarrow> string \<Rightarrow> string set \<Rightarrow> string set" where
  "consumedStep c myCode consumed =
     (if getBaseCode myCode = getBaseCode (req_code c) then insert myCode consumed
      else if endsWithPercent (req_code c) \<and> startsWith myCode (butlast (req_code c))
      then insert myCode consumed
      else consumed)"

definition consumedOf :: "string list \<Rightarrow> string set" where
  "consumedOf taken =
     fold (\<lambda>cat consumed.
        if category cat = ''Unrestricted Electives'' then consumed
        else fold (\<lambda>c. fold (consumedStep c) taken) (courses cat) consumed)
       REQUIREMENTS {}"

definition unconsumedOf :: "string list \<Rightarrow> string list" where
  "unconsumedOf taken = filter (\<lambda>c. c \<notin> consumedOf taken) taken"

text \<open>
  \<^verbatim>\<open>parseInt(reqCode.split(' ')[1]) - 1 < unconsumed.length\<close>: a missing second part
  and a part without digits give NaN, and the comparison is false. The length of an array
  is below \<open>2 ^ 32\<close>, so that a value of \<^verbatim>\<open>parseInt\<close> that is rounded (of magnitude
  \<open>2 ^ 53\<close> or more) compares with it as the integer does.
\<close>

definition ueIndexBelow :: "string \<Rightarrow> nat \<Rightarrow> bool" where
  "ueIndexBelow reqCode n =
     (let parts = splitOn CHR '' '' reqCode
      in case (if 1 < length parts then parseInt (parts ! 1) else None) of
           None \<Rightarrow> False
         | Some k \<Rightarrow> k - 1 < int n)"

definition checkRequirementOn :: "string list \<Rightarrow> string \<Rightarrow> bool" where
  "checkRequirementOn taken reqCode =
     (let reqBase = getBaseCode reqCode;
          isSatisfied = list_ex (\<lambda>takenCode. getBaseCode takenCode = reqBase) taken
      in if isSatisfied then True
         else if endsWithPercent reqCode
         then list_ex (\<lambda>c. startsWith c (butlast reqCode)) taken
         else if startsWith reqCode ''UE''
         then ueIndexBelow reqCode (length (unconsumedOf taken))
         else False)"

definition checkRequirement ::
  "int \<Rightarrow> int \<Rightarrow> AcademicYear list \<Rightarrow> StagedModule list \<Rightarrow> string \<Rightarrow> bool" where
  "checkRequirement currentYearNum currentSemNum ays staged reqCode =
     checkRequirementOn (allTakenModules currentYearNum currentSemNum ays staged) reqCode"

definition ueSlots :: "string list" where
  "ueSlots = concat (map (\<lambda>cat. map req_code (courses cat))
               (filter (\<lambda>cat. category cat = ''Unrestricted Electives'') REQUIREMENTS))"

subsection \<open>What the matcher is to decide\<close>

text \<open>
  The base of a code, in the words of the specification: the leading letters and four
  digits, without what follows them. The leading letters are the longest run of capital
  letters at the start of the code; a code that does not begin with two to four of them
  and four digits is its own base.
\<close>

definition spec_baseCode :: "string \<Rightarrow> string" where
  "spec_baseCode s =
     (let letters = takeWhile isUpper s;
          rest = dropWhile isUpper s
      in if 2 \<le> length letters \<and> length letters \<le> 4 \<and> 4 \<le> length rest
            \<and> list_all isDigit (take 4 rest)
         then letters @ take 4 rest
         else s)"

text \<open>
  A code matches a pattern when both have the same base, or the pattern is a prefix
  followed by \<^verbatim>\<open>%\<close> and the code begins with the prefix.
\<close>

definition spec_matches :: "string \<Rightarrow> string \<Rightarrow> bool" where
  "spec_matches pattern c =
     (spec_baseCode c = spec_baseCode pattern \<or>
      (\<exists>prefix rest. pattern = prefix @ ''%'' \<and> c = prefix @ rest))"

text \<open>
  The taken codes: the codes placed in a semester whose order is below the current order,
  and the codes of the staged courses.
\<close>

definition spec_taken :: "int \<Rightarrow> AcademicYear list \<Rightarrow> StagedModule list \<Rightarrow> string set" where
  "spec_taken currentOrder ays staged =
     {c. \<exists>y s m. y \<in> set ays \<and> s \<in> set (semesters y) \<and> m \<in> set (modules s)
           \<and> year y * 10 + semNumOf s < currentOrder \<and> c = code m}
     \<union> {c. \<exists>m. m \<in> set staged \<and> c = staged_code m}"

text \<open>
  A taken code is consumed when it matches the pattern of a slot of a category other than
  the unrestricted electives; \<open>N\<close> is the number of taken codes that are not consumed.
\<close>

definition spec_consumed :: "string set \<Rightarrow> string set" where
  "spec_consumed T =
     {c. c \<in> T \<and> (\<exists>cat slot. cat \<in> set REQUIREMENTS
            \<and> category cat \<noteq> ''Unrestricted Electives''
            \<and> slot \<in> set (courses cat) \<and> spec_matches (req_code slot) c)}"

definition spec_unconsumedCount :: "string set \<Rightarrow> nat" where
  "spec_unconsumedCount T = card (T - spec_consumed T)"

section \<open>Plan mutations of the board\<close>

text \<open>
  The part of the React state that the plan operations read and write: the plan, the
  staged (exempted) modules, the toast, the shaking semester and the module being
  dragged. The remaining drag flags only drive the drop indicators.
\<close>

datatype Source = FromStaged | FromSemester

record DraggingModule =
  drag_code :: string
  drag_source :: Source
  drag_sourceId :: "int option"

datatype ToastType = ToastError | ToastSuccess

record Board =
  academicYears :: "AcademicYear list"
  stagedModules :: "StagedModule list"
  toast :: "(string \<times> ToastType) option"
  shakingSemId :: "int option"
  draggingModule :: "DraggingModule option"

definition mapSemesters :: "(Semester \<Rightarrow> Semester) \<Rightarrow> AcademicYear list \<Rightarrow> AcademicYear list" where
  "mapSemesters g ays = map (\<lambda>y. y\<lparr>semesters := map g (semesters y)\<rparr>) ays"

subsection \<open>Array helpers\<close>

fun findIndex :: "('a \<Rightarrow> bool) \<Rightarrow> 'a list \<Rightarrow> int" where
  "findIndex P [] = - 1"
| "findIndex P (x # xs) =
     (if P x then 0 else (let r = findIndex P xs in if r = - 1 then - 1 else r + 1))"

text \<open>
  \<^verbatim>\<open>xs.splice(start, 0, x)\<close>: a negative start counts from the end, and the start
  is clamped to the array.
\<close>

definition spliceInsert :: "int \<Rightarrow> 'a \<Rightarrow> 'a list \<Rightarrow> 'a list" where
  "spliceInsert start x xs =
     (let len = int (length xs);
          k = (if start < 0 then max (len + start) 0 else min start len)
      in take (nat k) xs @ [x] @ drop (nat k) xs)"

text \<open>\<^verbatim>\<open>xs.splice(i, 1)\<close> for an index \<open>i\<close> that \<^verbatim>\<open>findIndex\<close> returned.\<close>

definition spliceRemove :: "int \<Rightarrow> 'a list \<Rightarrow> 'a list" where
  "spliceRemove i xs = take (nat i) xs @ drop (Suc (nat i)) xs"

subsection \<open>handleDragStart and handleDrop\<close>

definition handleDragStart :: "string \<Rightarrow> Source \<Rightarrow> int option \<Rightarrow> Board \<Rightarrow> Board" where
  "handleDragStart moduleCode src srcId b =
     b\<lparr>draggingModule :=
         Some \<lparr>drag_code = moduleCode, drag_source = src, drag_sourceId = srcId\<rparr>\<rparr>"

definition reorderSem :: "int \<Rightarrow> string \<Rightarrow> int \<Rightarrow> Semester \<Rightarrow> Semester" where
  "reorderSem targetSemId c insertAtIndex sem =
     (if sem_id sem = targetSemId
      then (let ms = modules sem;
                currentIndex = findIndex (\<lambda>m. code m = c) ms
            in if currentIndex \<noteq> - 1 \<and> currentIndex \<noteq> insertAtIndex
               then (let movedModule = ms ! nat currentIndex;
                         ms' = spliceRemove currentIndex ms;
                         adjustedIndex = (if currentIndex < insertAtIndex
                                          then insertAtIndex - 1 else insertAtIndex)
                     in sem\<lparr>modules := spliceInsert adjustedIndex movedModule ms'\<rparr>)
               else sem)
      else sem)"

definition moduleExistsInPlan :: "DraggingModule \<Rightarrow> AcademicYear list \<Rightarrow> bool" where
  "moduleExistsInPlan d ays =
     list_ex (\<lambda>y. list_ex (\<lambda>sem.
        if drag_source d = FromSemester \<and> Some (sem_id sem) = drag_sourceId d then False
        else list_ex (\<lambda>m. code m = drag_code d) (modules sem)) (semesters y)) ays"

definition targetFound :: "int \<Rightarrow> AcademicYear list \<Rightarrow> bool" where
  "targetFound targetSemId ays =
     list_ex (\<lambda>y. list_ex (\<lambda>sem. sem_id sem = targetSemId) (semesters y)) ays"

definition dropSem :: "DraggingModule \<Rightarrow> int \<Rightarrow> int option \<Rightarrow> Semester \<Rightarrow> Semester" where
  "dropSem d targetSemId insertAtIndex sem =
     (if drag_source d = FromSemester \<and> Some (sem_id sem) = drag_sourceId d
      then sem\<lparr>modules := filter (\<lambda>m. code m \<noteq> drag_code d) (modules sem),
               sem_units := sem_units sem - 4\<rparr>
      else if sem_id sem = targetSemId
      then (if list_ex (\<lambda>m. code m = drag_code d) (modules sem) then sem
            else (let newModule = \<lparr>code = drag_code d, title = drag_code d,
                                    units = Some (Finite 4), fluff = False\<rparr>;
                      ms = (case insertAtIndex of
                              None \<Rightarrow> modules sem @ [newModule]
                            | Some i \<Rightarrow> if 0 \<le> i then spliceInsert i newModule (modules sem)
                                       else modules sem @ [newModule])
                  in sem\<lparr>modules := ms, sem_units := sem_units sem + 4\<rparr>))
      else sem)"

text \<open>
  \<^verbatim>\<open>handleDrop\<close> reads the plan of the current render for its checks and updates
  the state through \<^verbatim>\<open>prev => ...\<close>; with no other update pending both are the same
  plan, the one of the board. The timers that clear the toast and the shaking later are
  not part of the operation.
\<close>

definition alreadyExistsMessage :: "string \<Rightarrow> string" where
  "alreadyExistsMessage c = c @ '' already exists in your study plan''"

definition handleDrop :: "int \<Rightarrow> int option \<Rightarrow> Board \<Rightarrow> Board" where
  "handleDrop targetSemId insertAtIndex b =
     (case draggingModule b of
        None \<Rightarrow> b
      | Some d \<Rightarrow>
          if drag_source d = FromSemester \<and> drag_sourceId d = Some targetSemId
          then b\<lparr>academicYears :=
                   (case insertAtIndex of
                      None \<Rightarrow> academicYears b
                    | Some i \<Rightarrow> mapSemesters (reorderSem targetSemId (drag_code d) i)
                                 (academicYears b)),
                 draggingModule := None\<rparr>
          else if targetFound targetSemId (academicYears b)
                  \<and> moduleExistsInPlan d (academicYears b)
          then b\<lparr>shakingSemId := Some targetSemId,
                 toast := Some (alreadyExistsMessage (drag_code d), ToastError),
                 draggingModule := None\<rparr>
          else b\<lparr>academicYears :=
                   mapSemesters (dropSem d targetSemId insertAtIndex) (academicYears b),
                 stagedModules :=
                   (if drag_source d = FromStaged
                    then filter (\<lambda>m. staged_code m \<noteq> drag_code d) (stagedModules b)
                    else stagedModules b),
                 draggingModule := None\<rparr>)"

subsection \<open>Search-based addition\<close>

record ModuleSearchResult =
  res_code :: string
  res_title :: string
  res_credits :: jsnum

text \<open>
  \<^verbatim>\<open>handleSearchChange\<close> keeps the results whose code is in no semester of the plan
  and shows the first five; \<^verbatim>\<open>handleModuleSelect\<close> appends the chosen one to the
  semester that is being searched.
\<close>

definition filterSearchResults ::
  "AcademicYear list \<Rightarrow> ModuleSearchResult list \<Rightarrow> ModuleSearchResult list" where
  "filterSearchResults ays results =
     (let allModulesInPlan =
            set (concat (map (\<lambda>y. concat (map (\<lambda>s. map code (modules s)) (semesters y))) ays))
      in take 5 (filter (\<lambda>r. res_code r \<notin> allModulesInPlan) results))"

definition selectSem :: "int \<Rightarrow> string \<Rightarrow> string \<Rightarrow> Semester \<Rightarrow> Semester" where
  "selectSem semId moduleCode ttl s =
     (if sem_id s = semId
      then (if list_ex (\<lambda>m. code m = moduleCode) (modules s) then s
            else s\<lparr>modules := modules s @
                      [\<lparr>code = moduleCode, title = ttl, units = Some (Finite 4), fluff = False\<rparr>],
                   sem_units := sem_units s + 4\<rparr>)
      else s)"

definition handleModuleSelect :: "int \<Rightarrow> string \<Rightarrow> string \<Rightarrow> Board \<Rightarrow> Board" where
  "handleModuleSelect semId moduleCode ttl b =
     b\<lparr>academicYears := mapSemesters (selectSem semId moduleCode ttl) (academicYears b)\<rparr>"

text \<open>
  A search in semester \<open>semId\<close> that the backend answers with \<open>results\<close>, followed by
  the choice of the \<open>k\<close>-th entry of the list that is shown.
\<close>

definition searchAdd :: "int \<Rightarrow> ModuleSearchResult list \<Rightarrow> nat \<Rightarrow> Board \<Rightarrow> Board" where
  "searchAdd semId results k b =
     (let shown = filterSearchResults (academicYears b) results
      in if k < length shown
         then handleModuleSelect semId (res_code (shown ! k)) (res_title (shown ! k)) b
         else b)"

subsection \<open>Adding an exempted course\<close>

text \<open>
  The click handler of a result in the exempted-course dialog; \<open>now\<close> stands for
  \<^verbatim>\<open>Date.now().toString()\<close>.
\<close>

definition addedExemptedMessage :: "string \<Rightarrow> string" where
  "addedExemptedMessage c = c @ '' added as exempted course''"

definition addExempted :: "string \<Rightarrow> ModuleSearchResult \<Rightarrow> Board \<Rightarrow> Board" where
  "addExempted now r b =
     b\<lparr>stagedModules := stagedModules b @
          [\<lparr>staged_id = now, staged_code = res_code r, staged_type = Exempted,
            mcs = orFour (res_credits r)\<rparr>],
       toast := Some (addedExemptedMessage (res_code r), ToastSuccess)\<rparr>"

subsection \<open>Special terms\<close>

datatype TermType = SpecialTerm1 | SpecialTerm2

definition termName :: "TermType \<Rightarrow> string" where
  "termName t = (case t of SpecialTerm1 \<Rightarrow> ''Special Term 1'' | SpecialTerm2 \<Rightarrow> ''Special Term 2'')"

definition addSpecialTerm :: "int \<Rightarrow> TermType \<Rightarrow> AcademicYear list \<Rightarrow> AcademicYear list" where
  "addSpecialTerm yearNum termType ays =
     map (\<lambda>y.
        if year y = yearNum
        then (if list_ex (\<lambda>s. name s = termName termType) (semesters y) then y
              else (let newSemId = yearNum * 100 + (if termType = SpecialTerm1 then 3 else 4)
                    in y\<lparr>semesters := semesters y @
                           [\<lparr>sem_id = newSemId, name = termName termType, sem_units = 0,
                             modules = [], isExchange = False\<rparr>]\<rparr>))
        else y) ays"

subsection \<open>The uniqueness invariant\<close>

definition semIds :: "AcademicYear list \<Rightarrow> int list" where
  "semIds ays = concat (map (\<lambda>y. map sem_id (semesters y)) ays)"

definition uniqueCodes :: "Board \<Rightarrow> bool" where
  "uniqueCodes b = distinct (planCodes (academicYears b) @ map staged_code (stagedModules b))"

text \<open>
  What \<^verbatim>\<open>handleDragStart\<close> is called with on a module card: the code of a module
  of the semester whose identifier is passed as the source.
\<close>

definition dragConsistent :: "Board \<Rightarrow> bool" where
  "dragConsistent b =
     (case draggingModule b of
        None \<Rightarrow> True
      | Some d \<Rightarrow>
          (case drag_source d of
             FromStaged \<Rightarrow> True
           | FromSemester \<Rightarrow>
               list_ex (\<lambda>y. list_ex (\<lambda>s. Some (sem_id s) = drag_sourceId d
                   \<and> list_ex (\<lambda>m. code m = drag_code d) (modules s)) (semesters y))
                 (academicYears b)))"

section \<open>Debounced validation as a transition system\<close>

text \<open>
  The effect that validates has the dependencies \<^verbatim>\<open>[academicYears, stagedModules]\<close>.
  On every change React runs the cleanup of the previous effect
  (\<^verbatim>\<open>clearTimeout(timer)\<close>) and then starts a timer of 800 ms whose callback closes over
  the plan of that render. When the timer fires, \<^verbatim>\<open>checkAllConstraints\<close> starts and
  awaits the backend; when its last await returns it calls
  \<^verbatim>\<open>setPrereqViolations\<close> and \<^verbatim>\<open>setOfferingViolations\<close>. The state below holds the
  current plan, the snapshot of the pending timer, the snapshots of the runs that have
  started and not yet finished, and the published maps.
\<close>

type_synonym snapshot = "AcademicYear list \<times> StagedModule list"

record ValidationState =
  currentPlan :: snapshot
  pendingTimer :: "snapshot option"
  inFlight :: "snapshot list"
  published :: violations

datatype ValidationEvent =
    Mutate snapshot
  | TimerFires
  | RunCompletes nat

definition validate :: "prereqApi \<Rightarrow> offeredApi \<Rightarrow> snapshot \<Rightarrow> violations" where
  "validate cp co p = checkAllConstraints cp co (fst p) (snd p)"

fun validationStep ::
  "prereqApi \<Rightarrow> offeredApi \<Rightarrow> ValidationEvent \<Rightarrow> ValidationState \<Rightarrow> ValidationState" where
  "validationStep cp co (Mutate p) st = st\<lparr>currentPlan := p, pendingTimer := Some p\<rparr>"
| "validationStep cp co TimerFires st =
     (case pendingTimer st of
        None \<Rightarrow> st
      | Some p \<Rightarrow> st\<lparr>pendingTimer := None, inFlight := inFlight st @ [p]\<rparr>)"
| "validationStep cp co (RunCompletes i) st =
     (if i < length (inFlight st)
      then st\<lparr>inFlight := take i (inFlight st) @ drop (Suc i) (inFlight st),
              published := validate cp co (inFlight st ! i)\<rparr>
      else st)"

definition initialValidation :: "snapshot \<Rightarrow> ValidationState" where
  "initialValidation p =
     \<lparr>currentPlan = p, pendingTimer = Some p, inFlight = [],
      published = (Map.empty, Map.empty)\<rparr>"

definition runValidation ::
  "prereqApi \<Rightarrow> offeredApi \<Rightarrow> ValidationEvent list \<Rightarrow> ValidationState \<Rightarrow> ValidationState" where
  "runValidation cp co evs st = fold (validationStep cp co) evs st"

definition timerIsCurrent :: "ValidationState \<Rightarrow> bool" where
  "timerIsCurrent st =
     (case pendingTimer st of None \<Rightarrow> True | Some p \<Rightarrow> p = currentPlan st)"

section \<open>Counting placements\<close>

definition allSems :: "AcademicYear list \<Rightarrow> Semester list" where
  "allSems ays = concat (map semesters ays)"

definition semCodes :: "Semester \<Rightarrow> string list" where
  "semCodes s = map code (modules s)"

definition isSource :: "DraggingModule \<Rightarrow> Semester \<Rightarrow> bool" where
  "isSource d s = (drag_source d = FromSemester \<and> Some (sem_id s) = drag_sourceId d)"

section \<open>Example data\<close>

text \<open>
  Small plans and a small catalog, used to evaluate the definitions at concrete inputs:
  \<^verbatim>\<open>CS2040S\<close> requires \<^verbatim>\<open>CS1101S\<close>; the catalog does not know any other code than
  the ones listed and fails on it.
\<close>

definition mkModule :: "string \<Rightarrow> Module" where
  "mkModule c = \<lparr>code = c, title = c, units = Some (Finite 4), fluff = False\<rparr>"

definition mkSemester :: "int \<Rightarrow> string \<Rightarrow> Module list \<Rightarrow> Semester" where
  "mkSemester i n ms =
     \<lparr>sem_id = i, name = n, sem_units = 4 * int (length ms), modules = ms, isExchange = False\<rparr>"

definition mkYear :: "int \<Rightarrow> Semester list \<Rightarrow> AcademicYear" where
  "mkYear n sems =
     \<lparr>year = n, label = ''Year'', academicYear = ''2025/2026'', totalUnits = 0, semesters = sems\<rparr>"

definition mkExempted :: "string \<Rightarrow> StagedModule" where
  "mkExempted c = \<lparr>staged_id = c, staged_code = c, staged_type = Exempted, mcs = Finite 4\<rparr>"

definition planSequential :: "AcademicYear list" where
  "planSequential =
     [mkYear 1 [mkSemester 1 ''Semester 1'' [mkModule ''CS1101S''],
                mkSemester 2 ''Semester 2'' [mkModule ''CS2040S'']]]"

definition planSameSemester :: "AcademicYear list" where
  "planSameSemester =
     [mkYear 1 [mkSemester 1 ''Semester 1'' [mkModule ''CS1101S'', mkModule ''CS2040S''],
                mkSemester 2 ''Semester 2'' []]]"

definition demoPrereqs :: prereqApi where
  "demoPrereqs c done =
     (if c = ''CS2040S''
      then Some \<lparr>satisfied = (''CS1101S'' \<in> set done),
                 missing = (if ''CS1101S'' \<in> set done then [] else [''CS1101S''])\<rparr>
      else if c \<in> {''CS1101S'', ''GEC1021'', ''MA1301''}
      then Some \<lparr>satisfied = True, missing = []\<rparr>
      else None)"

definition demoOffered :: offeredApi where
  "demoOffered c semNum =
     (if c \<in> {''CS1101S'', ''CS2040S'', ''MA1301''} then Some \<lparr>offered = True\<rparr>
      else if c = ''GEC1021'' then Some \<lparr>offered = (semNum = 1)\<rparr>
      else None)"

definition planUnknownCode :: "AcademicYear list" where
  "planUnknownCode =
     [mkYear 1 [mkSemester 1 ''Semester 1'' [mkModule ''ZZ9999''],
                mkSemester 2 ''Semester 2'' [mkModule ''CS2040S'']]]"


text \<open>
  A plan and exempted courses with credits other than 4, an absent and a zero credit, an
  exempted course entered twice, and a course that is both exempted and placed.
\<close>

definition planCredits :: "AcademicYear list" where
  "planCredits =
     [mkYear 1
        [mkSemester 1 ''Semester 1''
           [\<lparr>code = ''CS1101S'', title = ''Programming'', units = Some (Finite 2), fluff = False\<rparr>],
         mkSemester 2 ''Semester 2''
           [\<lparr>code = ''CS2040S'', title = ''Data Structures'', units = None, fluff = False\<rparr>,
            \<lparr>code = ''MA1301'', title = ''Mathematics'', units = Some (Finite 4), fluff = False\<rparr>]],
      mkYear 2
        [mkSemester 3 ''Semester 1''
           [\<lparr>code = ''GEC1021'', title = ''Cultures'', units = Some (Finite (5 / 2)),
             fluff = False\<rparr>,
            \<lparr>code = ''ES2660'', title = ''Critique'', units = Some (Finite 0), fluff = False\<rparr>]]]"

definition stagedCredits :: "StagedModule list" where
  "stagedCredits =
     [\<lparr>staged_id = ''1'', staged_code = ''MA1301'', staged_type = Exempted, mcs = Finite 8\<rparr>,
      \<lparr>staged_id = ''2'', staged_code = ''MA1301'', staged_type = Exempted, mcs = Finite 8\<rparr>,
      \<lparr>staged_id = ''3'', staged_code = ''PC1201'', staged_type = Taken, mcs = Finite 4\<rparr>]"

text \<open>
  A generated plan whose second semester is the exchange semester and holds the
  placeholder of the exchange.
\<close>

definition planExchange :: "AcademicYear list" where
  "planExchange =
     [mkYear 1 [mkSemester 11 ''Semester 1'' [mkModule ''CS1101S''],
                (mkSemester 12 ''Semester 2'' [mkModule ''SEP-PLACEHOLDER''])
                  \<lparr>isExchange := True\<rparr>]]"

definition emptyBoard :: "AcademicYear list \<Rightarrow> StagedModule list \<Rightarrow> Board" where
  "emptyBoard ays staged =
     \<lparr>academicYears = ays, stagedModules = staged, toast = None, shakingSemId = None,
      draggingModule = None\<rparr>"

text \<open>
  A first year whose second semester holds \<^verbatim>\<open>CS2040S\<close>, to which the board adds
  Special Term 1 and then, by a search in that term, \<^verbatim>\<open>CS1101S\<close>.
\<close>

definition planSpecialTerm :: "AcademicYear list" where
  "planSpecialTerm =
     academicYears
       (handleModuleSelect 103 ''CS1101S'' ''CS1101S''
          (emptyBoard
             (addSpecialTerm 1 SpecialTerm1
                [mkYear 1 [mkSemester 1 ''Semester 1'' [],
                           mkSemester 2 ''Semester 2'' [mkModule ''CS2040S'']]]) []))"

definition planGEC :: "AcademicYear list" where
  "planGEC =
     [mkYear 1 [mkSemester 1 ''Semester 1'' [mkModule ''GEC1021''],
                mkSemester 2 ''Semester 2'' []]]"

text \<open>
  Two boards on which \<^verbatim>\<open>CS1101S\<close> is dragged from the first semester although
  another semester holds it as well: the second semester on one board, the fourth on the
  other.
\<close>

definition fourSemesters ::
  "Module list \<Rightarrow> Module list \<Rightarrow> Module list \<Rightarrow> Module list \<Rightarrow> AcademicYear list" where
  "fourSemesters ms1 ms2 ms3 ms4 =
     [mkYear 1 [mkSemester 1 ''Semester 1'' ms1, mkSemester 2 ''Semester 2'' ms2],
      mkYear 2 [mkSemester 3 ''Semester 1'' ms3, mkSemester 4 ''Semester 2'' ms4]]"

definition boardHeldInSecond :: Board where
  "boardHeldInSecond =
     handleDragStart ''CS1101S'' FromSemester (Some 1)
       (emptyBoard (fourSemesters [mkModule ''CS1101S''] [mkModule ''CS1101S''] [] []) [])"

definition boardHeldInFourth :: Board where
  "boardHeldInFourth =
     handleDragStart ''CS1101S'' FromSemester (Some 1)
       (emptyBoard (fourSemesters [mkModule ''CS1101S''] [] [] [mkModule ''CS1101S'']) [])"

definition holders :: "string \<Rightarrow> Board \<Rightarrow> int list" where
  "holders c b =
     map sem_id (filter (\<lambda>s. list_ex (\<lambda>m. code m = c) (modules s))
       (concat (map semesters (academicYears b))))"

definition searchResult :: "string \<Rightarrow> ModuleSearchResult" where
  "searchResult c = \<lparr>res_code = c, res_title = c, res_credits = Finite 4\<rparr>"

definition boardDragging :: Board where
  "boardDragging =
     handleDragStart ''CS1101S'' FromSemester (Some 1)
       (emptyBoard planSequential [mkExempted ''MA1301''])"

text \<open>
  A validation run that starts on the plan with both courses in one semester and is still
  waiting for the backend when \<^verbatim>\<open>CS2040S\<close> is moved to the next semester.
\<close>

definition staleRun :: ValidationState where
  "staleRun =
     runValidation demoPrereqs demoOffered
       [TimerFires, Mutate (planSequential, []), RunCompletes 0]
       (initialValidation (planSameSemester, []))"

definition runInFlight :: ValidationState where
  "runInFlight =
     runValidation demoPrereqs demoOffered
       [TimerFires, Mutate (planSequential, [])]
       (initialValidation (planSameSemester, []))"

definition planElective :: "AcademicYear list" where
  "planElective =
     [mkYear 1 [mkSemester 1 ''Semester 1'' [mkModule ''PC1201''],
                mkSemester 2 ''Semester 2'' []]]"

text \<open>
  A plan for the matcher: five courses in the first semester, of which three match a slot
  of another category (one by its code, one by its base, one by a wildcard) and two match
  none; one course in the second semester; one staged course that matches by its base.
\<close>

definition planMatcher :: "AcademicYear list" where
  "planMatcher =
     [mkYear 1 [mkSemester 1 ''Semester 1''
                  [mkModule ''CS1101S'', mkModule ''CS2040C'', mkModule ''GEC1021'',
                   mkModule ''MA1301'', mkModule ''PC1201''],
                mkSemester 2 ''Semester 2'' [mkModule ''CS2030S'']]]"

definition stagedMatcher :: "StagedModule list" where
  "stagedMatcher =
     [\<lparr>staged_id = ''1'', staged_code = ''CS1231'', staged_type = Taken, mcs = Finite 4\<rparr>]"

lemma set_placements:
  "(y, s, m) \<in> set (placements ays) \<longleftrightarrow>
     y \<in> set ays \<and> s \<in> set (semesters y) \<and> m \<in> set (modules s)"
  by (auto simp: placements_def)

lemma fold_placements_gen:
  "fold (\<lambda>y. fold (\<lambda>s. fold (f y s) (modules s)) (semesters y)) ays acc =
   fold (\<lambda>(y, s, m). f y s m) (placements ays) acc"
proof -
  have inner: "fold (f y s) ms a = fold (\<lambda>(y, s, m). f y s m) (map (\<lambda>m. (y, s, m)) ms) a"
    for y s ms a
    by (simp add: fold_map comp_def)
  have mid: "fold (\<lambda>s. fold (f y s) (modules s)) ss a =
             fold (\<lambda>(y, s, m). f y s m) (concat (map (\<lambda>s. map (\<lambda>m. (y, s, m)) (modules s)) ss)) a"
    for y ss a
    by (induction ss arbitrary: a) (simp_all add: inner)
  show ?thesis
    unfolding placements_def
    by (induction ays arbitrary: acc) (simp_all add: mid)
qed

lemma checkAllConstraints_placements:
  "checkAllConstraints cp co ays staged =
     fold (checkPlacement cp co ays staged) (placements ays) (Map.empty, Map.empty)"
proof -
  have sem: "checkSemester cp co ays staged y =
      (\<lambda>s. fold (checkModule cp co (completedBefore ays staged (semOrderOf y s)) (semNumOf s))
         (modules s))" for y
    by (simp add: fun_eq_iff checkSemester_def)
  have yr: "checkYear cp co ays staged =
      (\<lambda>y. fold (\<lambda>s. fold
          (checkModule cp co (completedBefore ays staged (semOrderOf y s)) (semNumOf s))
          (modules s)) (semesters y))"
    by (simp add: fun_eq_iff checkYear_def sem)
  show ?thesis
    unfolding checkAllConstraints_def yr checkPlacement_def
    by (rule fold_placements_gen)
qed

subsection \<open>Folding map updates\<close>

text \<open>
  A step that writes at most the entry \<open>e x\<close> under its own key \<open>k x\<close> and leaves the
  other keys alone: what the fold leaves under a key comes from an element with that
  key, and with distinct keys each element decides its own entry.
\<close>

lemma fold_entries_other:
  assumes other: "\<And>x a c. k x \<noteq> c \<Longrightarrow> g (step x a) c = g a c"
  shows "(\<And>x. x \<in> set xs \<Longrightarrow> k x \<noteq> c) \<Longrightarrow> g (fold step xs a) c = g a c"
  by (induction xs arbitrary: a) (simp_all add: other)

lemma fold_entries_sound:
  assumes other: "\<And>x a c. k x \<noteq> c \<Longrightarrow> g (step x a) c = g a c"
      and self: "\<And>x a. g (step x a) (k x) = (case e x of None \<Rightarrow> g a (k x) | Some v \<Rightarrow> Some v)"
  shows "g (fold step xs a) c = Some v \<Longrightarrow>
           g a c = Some v \<or> (\<exists>x \<in> set xs. k x = c \<and> e x = Some v)"
proof (induction xs arbitrary: a)
  case Nil
  then show ?case by simp
next
  case (Cons x xs)
  from Cons.prems have "g (fold step xs (step x a)) c = Some v" by simp
  from Cons.IH [OF this]
  consider "g (step x a) c = Some v" | "\<exists>x \<in> set xs. k x = c \<and> e x = Some v" by blast
  then show ?case
  proof cases
    case 1
    show ?thesis
    proof (cases "k x = c")
      case True
      with 1 self [of x a] show ?thesis by (cases "e x") auto
    next
      case False
      with 1 other [of x c a] show ?thesis by simp
    qed
  next
    case 2
    then show ?thesis by auto
  qed
qed

lemma fold_entries_distinct:
  assumes other: "\<And>x a c. k x \<noteq> c \<Longrightarrow> g (step x a) c = g a c"
      and self: "\<And>x a. g (step x a) (k x) = (case e x of None \<Rightarrow> g a (k x) | Some v \<Rightarrow> Some v)"
  shows "distinct (map k xs) \<Longrightarrow> x \<in> set xs \<Longrightarrow> g a (k x) = None \<Longrightarrow>
           g (fold step xs a) (k x) = e x"
proof (induction xs arbitrary: a)
  case Nil
  then show ?case by simp
next
  case (Cons z zs)
  show ?case
  proof (cases "z = x")
    case True
    from Cons.prems(1) True have notin: "k x \<notin> k ` set zs" by simp
    have nk: "k w \<noteq> k x" if "w \<in> set zs" for w
      using that notin by (metis imageI)
    have "g (fold step zs (step x a)) (k x) = g (step x a) (k x)"
      using fold_entries_other [where g = g and k = k and step = step and xs = zs
          and c = "k x" and a = "step x a"] other nk
      by blast
    with True Cons.prems(3) self [of x a] show ?thesis by (cases "e x") auto
  next
    case False
    with Cons.prems have x: "x \<in> set zs" and neq: "k z \<noteq> k x" and d: "distinct (map k zs)"
      by auto
    from neq Cons.prems(3) have "g (step z a) (k x) = None" by (simp add: other)
    from Cons.IH [OF d x this] show ?thesis by simp
  qed
qed

subsection \<open>One module check\<close>

lemma checkModule_fst_other:
  "code m \<noteq> c \<Longrightarrow> fst (checkModule cp co cb sn m acc) c = fst acc c"
  by (simp add: checkModule_def Let_def split: option.splits)

lemma checkModule_snd_other:
  "code m \<noteq> c \<Longrightarrow> snd (checkModule cp co cb sn m acc) c = snd acc c"
  by (simp add: checkModule_def Let_def split: option.splits)

lemma checkModule_fst_self:
  "fst (checkModule cp co cb sn m acc) (code m) =
     (case (if fluff m then None else prereqEntry cp cb m) of
        None \<Rightarrow> fst acc (code m) | Some v \<Rightarrow> Some v)"
  by (simp add: checkModule_def prereqEntry_def Let_def split: option.splits)

lemma checkModule_snd_self:
  "snd (checkModule cp co cb sn m acc) (code m) =
     (case (if fluff m then None else offeringEntry co sn m) of
        None \<Rightarrow> snd acc (code m) | Some v \<Rightarrow> Some v)"
  by (simp add: checkModule_def offeringEntry_def Let_def split: option.splits)

lemma planCodes_placementCode: "planCodes ays = map placementCode (placements ays)"
  by (simp add: planCodes_def placementCode_def case_prod_beta)

lemma checkPlacement_fst_other:
  "placementCode p \<noteq> c \<Longrightarrow> fst (checkPlacement cp co ays staged p a) c = fst a c"
  by (cases p) (simp add: checkPlacement_def placementCode_def checkModule_fst_other)

lemma checkPlacement_snd_other:
  "placementCode p \<noteq> c \<Longrightarrow> snd (checkPlacement cp co ays staged p a) c = snd a c"
  by (cases p) (simp add: checkPlacement_def placementCode_def checkModule_snd_other)

lemma checkPlacement_fst_self:
  "fst (checkPlacement cp co ays staged p a) (placementCode p) =
     (case placementPrereqEntry cp ays staged p of
        None \<Rightarrow> fst a (placementCode p) | Some v \<Rightarrow> Some v)"
  by (cases p)
     (simp only: checkPlacement_def placementCode_def placementPrereqEntry_def
        checkModule_fst_self prod.case fst_conv snd_conv)

lemma checkPlacement_snd_self:
  "snd (checkPlacement cp co ays staged p a) (placementCode p) =
     (case placementOfferingEntry co p of
        None \<Rightarrow> snd a (placementCode p) | Some v \<Rightarrow> Some v)"
  by (cases p)
     (simp only: checkPlacement_def placementCode_def placementOfferingEntry_def
        checkModule_snd_self prod.case fst_conv snd_conv)

lemma prereq_violation_sound:
  assumes "fst (checkAllConstraints cp co ays staged) c = Some ms"
  shows "\<exists>p \<in> set (placements ays).
           placementCode p = c \<and> placementPrereqEntry cp ays staged p = Some ms"
proof -
  from assms have "fst (fold (checkPlacement cp co ays staged) (placements ays)
      (Map.empty, Map.empty)) c = Some ms"
    by (simp add: checkAllConstraints_placements)
  from fold_entries_sound [where g = fst and k = placementCode
      and step = "checkPlacement cp co ays staged" and e = "placementPrereqEntry cp ays staged",
      OF checkPlacement_fst_other checkPlacement_fst_self this]
  show ?thesis by simp
qed

lemma offering_violation_sound:
  assumes "snd (checkAllConstraints cp co ays staged) c = Some msg"
  shows "\<exists>p \<in> set (placements ays).
           placementCode p = c \<and> placementOfferingEntry co p = Some msg"
proof -
  from assms have "snd (fold (checkPlacement cp co ays staged) (placements ays)
      (Map.empty, Map.empty)) c = Some msg"
    by (simp add: checkAllConstraints_placements)
  from fold_entries_sound [where g = snd and k = placementCode
      and step = "checkPlacement cp co ays staged" and e = "placementOfferingEntry co",
      OF checkPlacement_snd_other checkPlacement_snd_self this]
  show ?thesis by simp
qed

lemma prereq_violation_exact:
  assumes "distinct (planCodes ays)" and "p \<in> set (placements ays)"
  shows "fst (checkAllConstraints cp co ays staged) (placementCode p) =
           placementPrereqEntry cp ays staged p"
proof -
  from assms(1) have d: "distinct (map placementCode (placements ays))"
    by (simp add: planCodes_placementCode)
  have init: "fst (Map.empty :: string \<rightharpoonup> string list, Map.empty :: string \<rightharpoonup> string)
      (placementCode p) = None"
    by simp
  have "fst (fold (checkPlacement cp co ays staged) (placements ays) (Map.empty, Map.empty))
          (placementCode p) = placementPrereqEntry cp ays staged p"
    by (rule fold_entries_distinct [where g = fst and k = placementCode
          and step = "checkPlacement cp co ays staged" and e = "placementPrereqEntry cp ays staged",
          OF checkPlacement_fst_other checkPlacement_fst_self d assms(2) init])
  then show ?thesis by (simp add: checkAllConstraints_placements)
qed

lemma set_completedBefore:
  "set (completedBefore ays staged n) =
     {code m' | y' s' m'. y' \<in> set ays \<and> s' \<in> set (semesters y') \<and> m' \<in> set (modules s')
        \<and> semOrderOf y' s' < n} \<union> staged_code ` set staged"
  by (auto simp: completedBefore_def split: if_splits)

lemma distinct_plan_same_placement:
  assumes "distinct (planCodes ays)"
      and "p \<in> set (placements ays)" and "q \<in> set (placements ays)"
      and "placementCode p = placementCode q"
  shows "p = q"
proof -
  from assms(1) have "inj_on placementCode (set (placements ays))"
    by (simp add: planCodes_placementCode distinct_map)
  with assms(2-4) show ?thesis by (auto dest: inj_onD)
qed


section \<open>Properties of progressionStats\<close>

lemma progressionAcc_flat:
  "progressionAcc add cy cs ays staged =
     fold (\<lambda>(y, s, m). moduleStep add (cy * 10 + cs) (semOrderOf y s) m) (placements ays)
       (fold (exemptedStep add) staged
          \<lparr>acc_completed = Finite 0, acc_current = Finite 0, acc_planned = Finite 0,
           allCodes = {}\<rparr>)"
  unfolding progressionAcc_def Let_def semOrderOf_def semNumOf_def
  by (rule fold_placements_gen)

lemma exemptedStep_entry:
  "exemptedStep add m a =
     (if staged_type m = Exempted then entryStep add (spec_exemptedEntry m) a else a)"
  by (simp add: exemptedStep_def entryStep_def spec_exemptedEntry_def mcsOf_def orFour_def
      jsFalsy_def)

lemma moduleStep_entry:
  "moduleStep add cur (semOrderOf y s) m a = entryStep add (spec_placedEntry cur (y, s, m)) a"
  by (simp add: moduleStep_def entryStep_def spec_placedEntry_def spec_bucket_def creditOf_def
      orFour_def jsFalsy_def Let_def split: option.splits)

lemma fold_exemptedStep_entries:
  "fold (exemptedStep add) staged a =
     fold (entryStep add) (map spec_exemptedEntry (filter (\<lambda>m. staged_type m = Exempted) staged)) a"
  by (induction staged arbitrary: a) (simp_all add: exemptedStep_entry)

lemma fold_moduleStep_entries:
  "fold (\<lambda>(y, s, m). moduleStep add cur (semOrderOf y s) m) ps a =
     fold (entryStep add) (map (spec_placedEntry cur) ps) a"
  by (induction ps arbitrary: a) (auto simp: moduleStep_entry)

lemma progressionAcc_entries:
  "progressionAcc add cy cs ays staged =
     fold (entryStep add) (spec_entries (cy * 10 + cs) ays staged)
       \<lparr>acc_completed = Finite 0, acc_current = Finite 0, acc_planned = Finite 0, allCodes = {}\<rparr>"
  by (simp add: progressionAcc_flat fold_exemptedStep_entries fold_moduleStep_entries
      spec_entries_def)

lemma entryStep_seen:
  "fst e \<in> allCodes a \<Longrightarrow> entryStep add e a = a"
  by (simp add: entryStep_def)

lemma entryStep_fresh:
  assumes "fst e \<notin> allCodes a"
  shows "accOf b (entryStep add e a) =
           (if snd (snd e) = b then add (accOf b a) (fst (snd e)) else accOf b a)"
    and "allCodes (entryStep add e a) = insert (fst e) (allCodes a)"
  using assms
  by (cases "snd (snd e)"; cases b; simp add: entryStep_def accOf_def)+

lemma fold_entryStep:
  "accOf b (fold (entryStep add) es a) =
     foldl add (accOf b a) (bucketCredits b (countedFrom (allCodes a) es))"
proof (induction es arbitrary: a)
  case Nil
  show ?case by (simp add: bucketCredits_def)
next
  case (Cons e es)
  show ?case
  proof (cases "fst e \<in> allCodes a")
    case True
    with Cons.IH [of a] show ?thesis by (simp add: entryStep_seen)
  next
    case False
    note st = entryStep_fresh(1) [OF False, of b add] entryStep_fresh(2) [OF False, of add]
    from Cons.IH [of "entryStep add e a"] False show ?thesis
      by (simp add: st bucketCredits_def)
  qed
qed

lemma countedFrom_index:
  "countedFrom seen es =
     map (\<lambda>i. es ! i)
       (filter (\<lambda>i. fst (es ! i) \<notin> seen \<union> fst ` set (take i es)) [0..<length es])"
proof (induction es arbitrary: seen)
  case Nil
  show ?case by simp
next
  case (Cons e es)
  have upt: "[0..<length (e # es)] = 0 # map Suc [0..<length es]"
    by (simp add: upt_conv_Cons map_Suc_upt del: upt_Suc)
  have tail: "map (\<lambda>i. (e # es) ! i)
        (filter (\<lambda>i. fst ((e # es) ! i) \<notin> seen \<union> fst ` set (take i (e # es)))
           (map Suc [0..<length es])) =
      map (\<lambda>i. es ! i)
        (filter (\<lambda>i. fst (es ! i) \<notin> insert (fst e) seen \<union> fst ` set (take i es))
           [0..<length es])"
    by (simp add: filter_map comp_def conj_ac)
  show ?case
  proof (cases "fst e \<in> seen")
    case True
    then have "insert (fst e) seen = seen" by auto
    with True Cons.IH [of seen] tail show ?thesis
      by (simp only: upt countedFrom.simps) simp
  next
    case False
    with Cons.IH [of "insert (fst e) seen"] tail show ?thesis
      by (simp only: upt countedFrom.simps) simp
  qed
qed

lemma spec_counted_countedFrom: "spec_counted es = countedFrom {} es"
  by (simp add: spec_counted_def countedFrom_index)

lemma set_countedFrom: "set (countedFrom seen es) \<subseteq> set es"
  by (induction es arbitrary: seen) auto

lemma keys_countedFrom: "fst ` set (countedFrom seen es) = fst ` set es - seen"
  by (induction es arbitrary: seen) auto

lemma distinct_countedFrom: "distinct (map fst (countedFrom seen es))"
proof (induction es arbitrary: seen)
  case Nil
  show ?case by simp
next
  case (Cons e es)
  have "fst e \<notin> fst ` set (countedFrom (insert (fst e) seen) es)"
    by (simp add: keys_countedFrom)
  with Cons.IH show ?case by simp
qed

lemma countedFrom_append:
  "countedFrom seen (xs @ ys) = countedFrom seen xs @ countedFrom (seen \<union> fst ` set xs) ys"
  by (induction xs arbitrary: seen) (simp_all add: insert_absorb)

lemma countedFrom_distinct:
  "distinct (map fst es) \<Longrightarrow> fst ` set es \<inter> seen = {} \<Longrightarrow> countedFrom seen es = es"
  by (induction es arbitrary: seen) auto

lemma progressionStats_counted:
  "completed (progressionStats add cy cs ays staged) =
     spec_total add Completed (spec_counted (spec_entries (cy * 10 + cs) ays staged))"
  "current (progressionStats add cy cs ays staged) =
     spec_total add Current (spec_counted (spec_entries (cy * 10 + cs) ays staged))"
  "planned (progressionStats add cy cs ays staged) =
     spec_total add Planned (spec_counted (spec_entries (cy * 10 + cs) ays staged))"
  "total (progressionStats add cy cs ays staged) =
     add (add (completed (progressionStats add cy cs ays staged))
              (current (progressionStats add cy cs ays staged)))
         (planned (progressionStats add cy cs ays staged))"
proof -
  let ?a0 = "\<lparr>acc_completed = Finite 0, acc_current = Finite 0, acc_planned = Finite 0,
              allCodes = {}\<rparr>"
  have acc: "accOf b (progressionAcc add cy cs ays staged) =
      spec_total add b (spec_counted (spec_entries (cy * 10 + cs) ays staged))" for b
    using fold_entryStep [of b add "spec_entries (cy * 10 + cs) ays staged" ?a0]
    by (cases b)
       (simp_all add: progressionAcc_entries spec_total_def bucketCredits_def
          spec_counted_countedFrom accOf_def)
  show "completed (progressionStats add cy cs ays staged) =
     spec_total add Completed (spec_counted (spec_entries (cy * 10 + cs) ays staged))"
    using acc [of Completed] by (simp add: progressionStats_def Let_def accOf_def)
  show "current (progressionStats add cy cs ays staged) =
     spec_total add Current (spec_counted (spec_entries (cy * 10 + cs) ays staged))"
    using acc [of Current] by (simp add: progressionStats_def Let_def accOf_def)
  show "planned (progressionStats add cy cs ays staged) =
     spec_total add Planned (spec_counted (spec_entries (cy * 10 + cs) ays staged))"
    using acc [of Planned] by (simp add: progressionStats_def Let_def accOf_def)
  show "total (progressionStats add cy cs ays staged) =
     add (add (completed (progressionStats add cy cs ays staged))
              (current (progressionStats add cy cs ays staged)))
         (planned (progressionStats add cy cs ays staged))"
    by (simp add: progressionStats_def Let_def)
qed

lemma semOrderOf_positive: "0 \<le> year y \<Longrightarrow> 0 < semOrderOf y s"
  by (simp add: semOrderOf_def semNumOf_def)

lemma exempted_is_counted_completed:
  assumes "m \<in> set staged" and "staged_type m = Exempted"
  shows "\<exists>n. (staged_code m, n, Completed) \<in> set (spec_counted (spec_entries cur ays staged))"
proof -
  let ?xs = "map spec_exemptedEntry (filter (\<lambda>m. staged_type m = Exempted) staged)"
  let ?ys = "map (spec_placedEntry cur) (placements ays)"
  from assms have "spec_exemptedEntry m \<in> set ?xs" by simp
  then have "staged_code m \<in> fst ` set ?xs"
    by (force simp: spec_exemptedEntry_def)
  then have "staged_code m \<in> fst ` set (countedFrom {} ?xs)"
    by (simp add: keys_countedFrom)
  then obtain e where e: "e \<in> set (countedFrom {} ?xs)" and k: "fst e = staged_code m"
    by auto
  from e set_countedFrom [of "{}" ?xs] have "e \<in> set ?xs" by blast
  then have "snd (snd e) = Completed" by (auto simp: spec_exemptedEntry_def)
  with k have "e = (staged_code m, fst (snd e), Completed)" by (cases e) auto
  moreover from e have "e \<in> set (spec_counted (spec_entries cur ays staged))"
    by (simp add: spec_counted_countedFrom spec_entries_def countedFrom_append)
  ultimately show ?thesis by metis
qed




lemma spec_counted_distinct: "distinct (map fst es) \<Longrightarrow> spec_counted es = es"
  by (simp add: spec_counted_countedFrom countedFrom_distinct)


lemma sentinel_entries:
  assumes "\<forall>y \<in> set ays. 0 \<le> year y"
  shows "map (spec_placedEntry 0) (placements ays) =
     map (\<lambda>(y, s, m). (code m,
          (case units m of None \<Rightarrow> Finite 4
           | Some u \<Rightarrow> if u = Finite 0 \<or> u = NaN then Finite 4 else u), Planned))
       (placements ays)"
proof (rule map_cong [OF refl])
  fix p assume mem: "p \<in> set (placements ays)"
  obtain y s m where p: "p = (y, s, m)" by (cases p) auto
  with mem have "y \<in> set ays" by (simp add: set_placements)
  with assms semOrderOf_positive [of y s] have "0 < semOrderOf y s" by simp
  with p show "spec_placedEntry 0 p = (case p of (y, s, m) \<Rightarrow> (code m,
          (case units m of None \<Rightarrow> Finite 4
           | Some u \<Rightarrow> if u = Finite 0 \<or> u = NaN then Finite 4 else u), Planned))"
    by (simp add: spec_placedEntry_def spec_bucket_def)
qed

lemma sentinel_no_current:
  assumes "\<forall>y \<in> set ays. 0 \<le> year y"
  shows "spec_total add Current (spec_counted (spec_entries 0 ays staged)) = Finite 0"
proof -
  have "snd (snd e) \<noteq> Current" if "e \<in> set (spec_entries 0 ays staged)" for e
    using that sentinel_entries [OF assms]
    by (auto simp: spec_entries_def spec_exemptedEntry_def)
  moreover have "set (spec_counted (spec_entries 0 ays staged)) \<subseteq> set (spec_entries 0 ays staged)"
    by (simp add: spec_counted_countedFrom set_countedFrom)
  ultimately have "filter (\<lambda>e. snd (snd e) = Current) (spec_counted (spec_entries 0 ays staged)) = []"
    by (auto simp: filter_empty_conv)
  then show ?thesis by (simp add: spec_total_def)
qed

section \<open>Properties of the matcher\<close>

lemma set_newSet: "set (newSet xs) = set xs"
  by (simp add: newSet_def)

lemma distinct_newSet: "distinct (newSet xs)"
  by (simp add: newSet_def)

lemma allTakenModules_completedBefore:
  "allTakenModules cy cs ays staged = newSet (completedBefore ays staged (cy * 10 + cs))"
  by (simp add: allTakenModules_def completedBefore_def semOrderOf_def semNumOf_def Let_def)

lemma set_allTakenModules:
  "set (allTakenModules cy cs ays staged) =
     {code m | y s m. y \<in> set ays \<and> s \<in> set (semesters y) \<and> m \<in> set (modules s)
        \<and> semOrderOf y s < cy * 10 + cs} \<union> staged_code ` set staged"
  by (simp add: allTakenModules_completedBefore set_newSet set_completedBefore)

lemma checkRequirementOn_iff:
  "checkRequirementOn taken reqCode \<longleftrightarrow>
     (\<exists>c \<in> set taken. getBaseCode c = getBaseCode reqCode \<or>
        (endsWithPercent reqCode \<and> startsWith c (butlast reqCode)))
     \<or> (\<not> endsWithPercent reqCode \<and> startsWith reqCode ''UE''
          \<and> ueIndexBelow reqCode (length (unconsumedOf taken)))"
  by (auto simp: checkRequirementOn_def Let_def list_ex_iff)

lemma length_getBaseCode:
  "getBaseCode c \<noteq> c \<Longrightarrow> 6 \<le> length (getBaseCode c)"
  by (auto simp: getBaseCode_def matchesBase_def split: if_splits)

lemma getBaseCode_short:
  assumes "length r < 6"
  shows "getBaseCode c = r \<longleftrightarrow> c = r"
proof
  assume "getBaseCode c = r"
  with assms length_getBaseCode [of c] show "c = r" by force
next
  assume "c = r"
  with assms show "getBaseCode c = r"
    by (simp add: getBaseCode_def matchesBase_def)
qed

lemma ueSlots_eq:
  "ueSlots = [''UE 1'', ''UE 2'', ''UE 3'', ''UE 4'', ''UE 5'', ''UE 6'', ''UE 7'', ''UE 8'',
              ''UE 9'', ''UE 10'']"
  by (simp add: ueSlots_def REQUIREMENTS_def)

lemma parseInt_digits:
  "parseInt ''1'' = Some 1" "parseInt ''2'' = Some 2" "parseInt ''3'' = Some 3"
  "parseInt ''4'' = Some 4" "parseInt ''5'' = Some 5" "parseInt ''6'' = Some 6"
  "parseInt ''7'' = Some 7" "parseInt ''8'' = Some 8" "parseInt ''9'' = Some 9"
  "parseInt ''10'' = Some 10"
  by (simp_all add: parseInt_def isWhite_def isDigit_def digitVal_def Let_def)

lemma ueIndexBelow_slots:
  "ueIndexBelow ''UE 1'' n = (0 < n)" "ueIndexBelow ''UE 2'' n = (1 < n)"
  "ueIndexBelow ''UE 3'' n = (2 < n)" "ueIndexBelow ''UE 4'' n = (3 < n)"
  "ueIndexBelow ''UE 5'' n = (4 < n)" "ueIndexBelow ''UE 6'' n = (5 < n)"
  "ueIndexBelow ''UE 7'' n = (6 < n)" "ueIndexBelow ''UE 8'' n = (7 < n)"
  "ueIndexBelow ''UE 9'' n = (8 < n)" "ueIndexBelow ''UE 10'' n = (9 < n)"
  by (simp_all add: ueIndexBelow_def parseInt_digits Let_def)

lemma checkRequirementOn_ue:
  assumes "r \<in> set ueSlots" and "r \<notin> set taken"
  shows "checkRequirementOn taken r = ueIndexBelow r (length (unconsumedOf taken))"
proof -
  from assms(1) have short: "length r < 6" and np: "\<not> endsWithPercent r"
    and ue: "startsWith r ''UE''"
    by (auto simp: ueSlots_eq endsWithPercent_def startsWith_def)
  from short have own: "getBaseCode r = r" by (simp add: getBaseCode_short)
  from assms(2) have "\<not> (\<exists>c \<in> set taken. getBaseCode c = getBaseCode r)"
    by (simp add: own getBaseCode_short [OF short])
  with np ue show ?thesis by (simp add: checkRequirementOn_iff)
qed

lemma length_filter_less_upt:
  "length (filter (\<lambda>i. i < n) [0..<m]) = min n m"
  by (induction m) auto

subsection \<open>The code against what it is to decide\<close>

lemma digit_not_upper: "isDigit c \<Longrightarrow> \<not> isUpper c"
  by (auto simp: isDigit_def isUpper_def)

lemma matchesBase_iff:
  "matchesBase n s \<longleftrightarrow>
     length (takeWhile isUpper s) = n \<and> 4 \<le> length (dropWhile isUpper s)
     \<and> list_all isDigit (take 4 (dropWhile isUpper s))"
proof
  assume m: "matchesBase n s"
  then have len: "n + 4 \<le> length s" and up: "list_all isUpper (take n s)"
    and dg: "list_all isDigit (take 4 (drop n s))"
    by (simp_all add: matchesBase_def)
  from len have ne: "drop n s \<noteq> []" by simp
  with dg have "isDigit (hd (drop n s))"
    by (cases "drop n s") simp_all
  then have nu: "\<not> isUpper (hd (drop n s))" by (rule digit_not_upper)
  have s: "s = take n s @ drop n s" by simp
  from ne nu have tw0: "takeWhile isUpper (drop n s) = []"
    by (cases "drop n s") simp_all
  from ne nu have dw0: "dropWhile isUpper (drop n s) = drop n s"
    by (cases "drop n s") simp_all
  have "takeWhile isUpper s = takeWhile isUpper (take n s @ drop n s)" by simp
  also have "\<dots> = take n s @ takeWhile isUpper (drop n s)"
    using up by (intro takeWhile_append2) (simp add: list_all_iff)
  finally have tw: "takeWhile isUpper s = take n s" by (simp add: tw0)
  have "dropWhile isUpper s = dropWhile isUpper (take n s @ drop n s)" by simp
  also have "\<dots> = dropWhile isUpper (drop n s)"
    using up by (intro dropWhile_append2) (simp add: list_all_iff)
  finally have dw: "dropWhile isUpper s = drop n s" by (simp add: dw0)
  from len dg show "length (takeWhile isUpper s) = n \<and> 4 \<le> length (dropWhile isUpper s)
     \<and> list_all isDigit (take 4 (dropWhile isUpper s))"
    by (simp add: tw dw)
next
  assume a: "length (takeWhile isUpper s) = n \<and> 4 \<le> length (dropWhile isUpper s)
     \<and> list_all isDigit (take 4 (dropWhile isUpper s))"
  then have tw: "takeWhile isUpper s = take n s"
    using takeWhile_eq_take [of isUpper s] by simp
  from a have dw: "dropWhile isUpper s = drop n s"
    using dropWhile_eq_drop [of isUpper s] by simp
  have "list_all isUpper (takeWhile isUpper s)"
    by (simp add: list_all_iff) (meson set_takeWhileD)
  then have up: "list_all isUpper (take n s)" by (simp add: tw)
  from a have "4 \<le> length s - n" and dg: "list_all isDigit (take 4 (drop n s))"
    by (simp_all add: dw)
  then have "n + 4 \<le> length s" by arith
  with up dg show "matchesBase n s"
    by (simp add: matchesBase_def)
qed

lemma getBaseCode_spec: "getBaseCode s = spec_baseCode s"
proof -
  have split: "take (n + 4) s = take n s @ take 4 (drop n s)" for n
    by (simp add: take_add)
  have tw: "take (length (takeWhile isUpper s)) s = takeWhile isUpper s"
    by (simp add: takeWhile_eq_take [symmetric])
  have dw: "drop (length (takeWhile isUpper s)) s = dropWhile isUpper s"
    by (simp add: dropWhile_eq_drop [symmetric])
  let ?k = "length (takeWhile isUpper s)"
  consider "?k = 4" | "?k = 3" | "?k = 2" | "?k < 2 \<or> 4 < ?k" by linarith
  then show ?thesis
  proof cases
    case 1
    with split [of 4] tw dw show ?thesis
      by (simp add: getBaseCode_def spec_baseCode_def matchesBase_iff Let_def)
  next
    case 2
    with split [of 3] tw dw show ?thesis
      by (simp add: getBaseCode_def spec_baseCode_def matchesBase_iff Let_def)
  next
    case 3
    with split [of 2] tw dw show ?thesis
      by (simp add: getBaseCode_def spec_baseCode_def matchesBase_iff Let_def)
  next
    case 4
    then show ?thesis
      by (auto simp: getBaseCode_def spec_baseCode_def matchesBase_iff Let_def)
  qed
qed


lemma wildcard_iff:
  "endsWithPercent r \<and> startsWith x (butlast r) \<longleftrightarrow>
     (\<exists>prefix rest. r = prefix @ ''%'' \<and> x = prefix @ rest)"
proof
  assume a: "endsWithPercent r \<and> startsWith x (butlast r)"
  then have r: "r = butlast r @ ''%''"
    using append_butlast_last_id [of r] by (simp add: endsWithPercent_def)
  from a have "x = butlast r @ drop (length (butlast r)) x"
    by (metis append_take_drop_id startsWith_def)
  with r show "\<exists>prefix rest. r = prefix @ ''%'' \<and> x = prefix @ rest" by blast
next
  assume "\<exists>prefix rest. r = prefix @ ''%'' \<and> x = prefix @ rest"
  then obtain p rest where "r = p @ ''%''" "x = p @ rest" by blast
  then show "endsWithPercent r \<and> startsWith x (butlast r)"
    by (simp add: endsWithPercent_def startsWith_def)
qed

lemma spec_matches_code:
  "spec_matches r x \<longleftrightarrow>
     getBaseCode x = getBaseCode r \<or> (endsWithPercent r \<and> startsWith x (butlast r))"
  by (simp add: spec_matches_def getBaseCode_spec wildcard_iff)

lemma consumedStep_spec:
  "consumedStep c x C = (if spec_matches (req_code c) x then insert x C else C)"
  by (auto simp: consumedStep_def spec_matches_code)

lemma fold_consumedStep:
  "fold (consumedStep c) taken C = C \<union> {x \<in> set taken. spec_matches (req_code c) x}"
  by (induction taken arbitrary: C) (auto simp: consumedStep_spec)

lemma fold_courses:
  "fold (\<lambda>c. fold (consumedStep c) taken) cs C =
     C \<union> {x \<in> set taken. \<exists>c \<in> set cs. spec_matches (req_code c) x}"
  by (induction cs arbitrary: C) (auto simp: fold_consumedStep)

lemma fold_categories:
  "fold (\<lambda>cat consumed.
        if category cat = ''Unrestricted Electives'' then consumed
        else fold (\<lambda>c. fold (consumedStep c) taken) (courses cat) consumed) reqs C =
     C \<union> {x \<in> set taken. \<exists>cat \<in> set reqs. category cat \<noteq> ''Unrestricted Electives''
            \<and> (\<exists>c \<in> set (courses cat). spec_matches (req_code c) x)}"
proof (induction reqs arbitrary: C)
  case Nil
  show ?case by simp
next
  case (Cons r reqs)
  show ?case
    by (cases "category r = ''Unrestricted Electives''")
       (auto simp: Cons.IH fold_courses)
qed

lemma consumedOf_spec: "consumedOf taken = spec_consumed (set taken)"
  unfolding consumedOf_def fold_categories spec_consumed_def by auto

lemma length_unconsumedOf:
  assumes "distinct taken"
  shows "length (unconsumedOf taken) = spec_unconsumedCount (set taken)"
proof -
  have "length (unconsumedOf taken) = card {x \<in> set taken. x \<notin> consumedOf taken}"
    using assms by (simp add: unconsumedOf_def distinct_length_filter Int_def conj_commute)
  also have "{x \<in> set taken. x \<notin> consumedOf taken} = set taken - spec_consumed (set taken)"
    by (auto simp: consumedOf_spec)
  finally show ?thesis by (simp add: spec_unconsumedCount_def)
qed

lemma set_allTakenModules_spec:
  "set (allTakenModules cy cs ays staged) = spec_taken (cy * 10 + cs) ays staged"
  by (auto simp: allTakenModules_def set_newSet spec_taken_def semNumOf_def Let_def)

lemma unconsumed_count:
  "length (unconsumedOf (allTakenModules cy cs ays staged)) =
     spec_unconsumedCount (spec_taken (cy * 10 + cs) ays staged)"
  by (simp add: length_unconsumedOf allTakenModules_def distinct_newSet Let_def
      set_allTakenModules_spec [unfolded allTakenModules_def Let_def])

lemma checkRequirement_spec:
  "checkRequirement cy cs ays staged reqCode \<longleftrightarrow>
     (\<exists>c \<in> spec_taken (cy * 10 + cs) ays staged. spec_matches reqCode c)
     \<or> (\<not> endsWithPercent reqCode \<and> startsWith reqCode ''UE''
          \<and> ueIndexBelow reqCode (spec_unconsumedCount (spec_taken (cy * 10 + cs) ays staged)))"
  by (simp add: checkRequirement_def checkRequirementOn_iff unconsumed_count
      set_allTakenModules_spec spec_matches_code)

lemma other_slots_not_elective:
  assumes "cat \<in> set REQUIREMENTS" and "category cat \<noteq> ''Unrestricted Electives''"
    and "slot \<in> set (courses cat)"
  shows "\<not> startsWith (req_code slot) ''UE''"
  using assms by (auto simp: REQUIREMENTS_def startsWith_def)

subsection \<open>Elective slots and the example plan\<close>

lemma filter_below_take:
  "map P xs = map (\<lambda>i. i < k) [0..<length xs] \<Longrightarrow> filter P xs = take k xs"
proof (induction xs rule: rev_induct)
  case Nil
  show ?case by simp
next
  case (snoc x xs)
  from snoc.prems have "map P xs = map (\<lambda>i. i < k) [0..<length xs]"
    and "P x = (length xs < k)" by simp_all
  with snoc.IH show ?case by simp
qed

lemma elective_slot_direct:
  assumes "r \<in> set ueSlots"
  shows "(\<exists>c \<in> T. spec_matches r c) \<longleftrightarrow> r \<in> T"
proof -
  from assms have short: "length r < 6" and np: "\<not> endsWithPercent r"
    by (auto simp: ueSlots_eq endsWithPercent_def)
  from short have own: "getBaseCode r = r" by (simp add: getBaseCode_short)
  show ?thesis
    by (auto simp: spec_matches_code np own getBaseCode_short [OF short])
qed

lemma checkRequirement_elective:
  assumes "r \<in> set ueSlots"
  shows "checkRequirement cy cs ays staged r \<longleftrightarrow>
     r \<in> spec_taken (cy * 10 + cs) ays staged
     \<or> ueIndexBelow r (spec_unconsumedCount (spec_taken (cy * 10 + cs) ays staged))"
proof -
  from assms have "\<not> endsWithPercent r" and "startsWith r ''UE''"
    by (auto simp: ueSlots_eq endsWithPercent_def startsWith_def)
  then show ?thesis
    by (simp add: checkRequirement_spec elective_slot_direct [OF assms])
qed

lemma upt_10: "[0..<10] = [0, 1, 2, 3, 4, 5, 6, 7, 8, 9 :: nat]"
  by (simp add: upt_rec)

lemma elective_slots_map:
  "map (checkRequirement cy cs ays staged) ueSlots =
     map (\<lambda>i. ueSlots ! i \<in> spec_taken (cy * 10 + cs) ays staged
               \<or> i < spec_unconsumedCount (spec_taken (cy * 10 + cs) ays staged)) [0..<10]"
proof -
  have "map (checkRequirement cy cs ays staged) ueSlots =
      map (\<lambda>r. r \<in> spec_taken (cy * 10 + cs) ays staged
             \<or> ueIndexBelow r (spec_unconsumedCount (spec_taken (cy * 10 + cs) ays staged))) ueSlots"
    by (simp add: checkRequirement_elective)
  also have "\<dots> = map (\<lambda>i. ueSlots ! i \<in> spec_taken (cy * 10 + cs) ays staged
               \<or> i < spec_unconsumedCount (spec_taken (cy * 10 + cs) ays staged)) [0..<10]"
    unfolding upt_10 by (simp add: ueSlots_eq ueIndexBelow_slots)
  finally show ?thesis .
qed

lemma planMatcher_taken:
  "allTakenModules 1 2 planMatcher stagedMatcher =
     [''CS1101S'', ''CS2040C'', ''GEC1021'', ''MA1301'', ''PC1201'', ''CS1231'']"
  by (simp add: allTakenModules_def planMatcher_def stagedMatcher_def mkYear_def mkSemester_def
      mkModule_def newSet_def Let_def)

lemma base_examples:
  "getBaseCode ''CS1101S'' = ''CS1101''" "getBaseCode ''CS2040C'' = ''CS2040''"
  "getBaseCode ''GEC1021'' = ''GEC1021''" "getBaseCode ''MA1301'' = ''MA1301''"
  "getBaseCode ''PC1201'' = ''PC1201''" "getBaseCode ''CS1231'' = ''CS1231''"
  by (simp_all add: getBaseCode_def matchesBase_def isUpper_def isDigit_def)

lemma base_slots:
  "getBaseCode ''ES2660'' = ''ES2660''" "getBaseCode ''GEC%'' = ''GEC%''"
  "getBaseCode ''GEA1000'' = ''GEA1000''" "getBaseCode ''GES%'' = ''GES%''"
  "getBaseCode ''GEN%'' = ''GEN%''" "getBaseCode ''CS1231S'' = ''CS1231''"
  "getBaseCode ''CS2030S'' = ''CS2030''" "getBaseCode ''CS2040S'' = ''CS2040''"
  "getBaseCode ''CS2100'' = ''CS2100''" "getBaseCode ''CS2106'' = ''CS2106''"
  "getBaseCode ''CS3230'' = ''CS3230''" "getBaseCode ''Focus 4K'' = ''Focus 4K''"
  "getBaseCode ''Focus 2'' = ''Focus 2''" "getBaseCode ''Focus 3'' = ''Focus 3''"
  "getBaseCode ''CS4%'' = ''CS4%''" "getBaseCode ''IE/FYP'' = ''IE/FYP''"
  "getBaseCode ''Project'' = ''Project''" "getBaseCode ''MA1521'' = ''MA1521''"
  "getBaseCode ''MA1522'' = ''MA1522''" "getBaseCode ''ST2334'' = ''ST2334''"
  by (simp_all add: getBaseCode_def matchesBase_def isUpper_def isDigit_def)

lemma planMatcher_consumed:
  "consumedOf [''CS1101S'', ''CS2040C'', ''GEC1021'', ''MA1301'', ''PC1201'', ''CS1231''] =
     {''CS1101S'', ''CS2040C'', ''GEC1021'', ''CS1231''}"
  unfolding consumedOf_def REQUIREMENTS_def
  by (simp add: consumedStep_def base_examples base_slots endsWithPercent_def startsWith_def
      insert_commute)

lemma planMatcher_unconsumed:
  "unconsumedOf [''CS1101S'', ''CS2040C'', ''GEC1021'', ''MA1301'', ''PC1201'', ''CS1231''] =
     [''MA1301'', ''PC1201'']"
  by (simp add: unconsumedOf_def planMatcher_consumed)

lemma planMatcher_spec_taken:
  "spec_taken 12 planMatcher stagedMatcher =
     {''CS1101S'', ''CS2040C'', ''GEC1021'', ''MA1301'', ''PC1201'', ''CS1231''}"
  using set_allTakenModules_spec [of 1 2 planMatcher stagedMatcher]
  by (simp add: planMatcher_taken)

lemma planMatcher_count: "spec_unconsumedCount (spec_taken 12 planMatcher stagedMatcher) = 2"
  using unconsumed_count [of 1 2 planMatcher stagedMatcher]
  by (simp add: planMatcher_taken planMatcher_unconsumed)

lemma pointer_examples:
  "parseCurrentSemester ''Y1S1'' = (1, 1)" "parseCurrentSemester ''Y1S2'' = (1, 2)"
  by (simp_all add: parseCurrentSemester_def isDigit_def digitVal_def)

section \<open>Properties of the plan mutations\<close>

subsection \<open>Distinctness by counting\<close>

lemma distinct_count_list: "distinct xs \<longleftrightarrow> (\<forall>c. count_list xs c \<le> 1)"
proof (induction xs)
  case Nil
  show ?case by simp
next
  case (Cons x xs)
  show ?case
  proof
    assume d: "distinct (x # xs)"
    then have "count_list xs x = 0" by (simp add: count_list_0_iff)
    moreover from d Cons.IH have "\<forall>c. count_list xs c \<le> 1" by simp
    ultimately show "\<forall>c. count_list (x # xs) c \<le> 1" by simp
  next
    assume c: "\<forall>c. count_list (x # xs) c \<le> 1"
    then have "count_list (x # xs) x \<le> 1" by blast
    then have "count_list xs x = 0" by simp
    then have nin: "x \<notin> set xs" by (simp add: count_list_0_iff)
    have "count_list xs c \<le> 1" for c
      using c [rule_format, of c] by (simp split: if_splits)
    with Cons.IH nin show "distinct (x # xs)" by simp
  qed
qed

lemma count_list_concat:
  "count_list (concat xss) c = sum_list (map (\<lambda>xs. count_list xs c) xss)"
  by (induction xss) simp_all

lemma count_list_map_indicator:
  "count_list (map h xs) t = sum_list (map (\<lambda>x. if h x = t then 1 else 0) xs)"
  by (induction xs) simp_all

lemma count_list_take_drop:
  "count_list (map f (take k xs)) c + count_list (map f (drop k xs)) c = count_list (map f xs) c"
proof -
  have "count_list (map f (take k xs @ drop k xs)) c = count_list (map f xs) c" by simp
  then show ?thesis by (simp only: map_append count_list_append)
qed

lemma count_list_map_0_iff:
  "count_list (map f xs) c = 0 \<longleftrightarrow> \<not> list_ex (\<lambda>m. f m = c) xs"
  by (induction xs) auto

lemma count_list_filter_neq:
  "count_list (map f (filter (\<lambda>m. f m \<noteq> a) ms)) c = (if c = a then 0 else count_list (map f ms) c)"
  by (induction ms) auto

subsection \<open>The plan as a list of semesters\<close>

lemma planCodes_allSems: "planCodes ays = concat (map semCodes (allSems ays))"
proof -
  have inner: "map (\<lambda>(y, s, m). code m) (concat (map (\<lambda>s. map (\<lambda>m. (y, s, m)) (modules s)) ss)) =
      concat (map semCodes ss)" for y :: AcademicYear and ss
    by (induction ss) (simp_all add: semCodes_def comp_def)
  show ?thesis
    unfolding planCodes_def placements_def allSems_def
    by (induction ays) (simp_all add: inner)
qed

lemma allSems_mapSemesters: "allSems (mapSemesters g ays) = map g (allSems ays)"
  by (induction ays) (simp_all add: allSems_def mapSemesters_def)

lemma semIds_allSems: "semIds ays = map sem_id (allSems ays)"
  by (induction ays) (simp_all add: semIds_def allSems_def)

lemma set_allSems: "s \<in> set (allSems ays) \<longleftrightarrow> (\<exists>y \<in> set ays. s \<in> set (semesters y))"
  by (auto simp: allSems_def)

lemma count_planCodes:
  "count_list (planCodes ays) c = sum_list (map (\<lambda>s. count_list (semCodes s) c) (allSems ays))"
  by (simp add: planCodes_allSems count_list_concat comp_def)

lemma count_planCodes_map:
  "count_list (planCodes (mapSemesters g ays)) c =
     sum_list (map (\<lambda>s. count_list (semCodes (g s)) c) (allSems ays))"
  by (simp add: count_planCodes allSems_mapSemesters comp_def)

lemma semIds_mapSemesters:
  "(\<And>s. sem_id (g s) = sem_id s) \<Longrightarrow> semIds (mapSemesters g ays) = semIds ays"
  by (simp add: semIds_allSems allSems_mapSemesters)

lemma count_target_le_1:
  assumes "distinct (semIds ays)"
  shows "sum_list (map (\<lambda>s. if sem_id s = t then 1 else 0) (allSems ays)) \<le> (1::nat)"
proof -
  have "sum_list (map (\<lambda>s. if sem_id s = t then 1 else 0) (allSems ays)) =
        count_list (semIds ays) t"
    by (simp add: semIds_allSems count_list_map_indicator)
  with assms show ?thesis by (simp add: distinct_count_list)
qed

subsection \<open>splice and findIndex\<close>

lemma count_spliceInsert:
  "count_list (map f (spliceInsert i x xs)) c = count_list (map f (x # xs)) c"
proof -
  have "count_list (map f (take k xs @ [x] @ drop k xs)) c = count_list (map f (x # xs)) c" for k
    using count_list_take_drop [of f k xs c] by (simp only: map_append count_list_append) simp
  then show ?thesis by (simp only: spliceInsert_def Let_def)
qed

lemma findIndex_bounds:
  "findIndex P xs \<noteq> - 1 \<Longrightarrow> 0 \<le> findIndex P xs \<and> nat (findIndex P xs) < length xs"
  by (induction xs) (auto simp: Let_def split: if_splits)

lemma count_spliceRemove:
  assumes "0 \<le> i" and "nat i < length xs"
  shows "count_list (map f (xs ! nat i # spliceRemove i xs)) c = count_list (map f xs) c"
proof -
  from assms(2) have "xs = take (nat i) xs @ xs ! nat i # drop (Suc (nat i)) xs"
    by (rule id_take_nth_drop)
  then have "count_list (map f xs) c =
      count_list (map f (take (nat i) xs @ xs ! nat i # drop (Suc (nat i)) xs)) c"
    by simp
  also have "\<dots> = count_list (map f (xs ! nat i # spliceRemove i xs)) c"
    by (simp only: spliceRemove_def map_append list.map count_list_append count_list.simps) simp
  finally show ?thesis by simp
qed

subsection \<open>What one semester holds after a mutation\<close>

lemma count_reorderSem:
  "count_list (semCodes (reorderSem t c i s)) c' = count_list (semCodes s) c'"
proof (cases "sem_id s = t \<and> findIndex (\<lambda>m. code m = c) (modules s) \<noteq> - 1
    \<and> findIndex (\<lambda>m. code m = c) (modules s) \<noteq> i")
  case True
  let ?ci = "findIndex (\<lambda>m. code m = c) (modules s)"
  from True findIndex_bounds [of "\<lambda>m. code m = c" "modules s"]
  have b: "0 \<le> ?ci" "nat ?ci < length (modules s)" by simp_all
  from True have "semCodes (reorderSem t c i s) =
      map code (spliceInsert (if ?ci < i then i - 1 else i) (modules s ! nat ?ci)
        (spliceRemove ?ci (modules s)))"
    by (simp add: reorderSem_def semCodes_def Let_def)
  then show ?thesis
    by (simp only: count_spliceInsert count_spliceRemove [OF b] semCodes_def)
next
  case False
  then have "reorderSem t c i s = s" by (auto simp: reorderSem_def Let_def)
  then show ?thesis by simp
qed

lemma count_dropSem_other:
  "c \<noteq> drag_code d \<Longrightarrow>
     count_list (semCodes (dropSem d t i s)) c = count_list (semCodes s) c"
  by (auto simp: dropSem_def semCodes_def Let_def count_list_filter_neq count_spliceInsert
      split: option.splits)

lemma count_dropSem_source:
  "isSource d s \<Longrightarrow> count_list (semCodes (dropSem d t i s)) (drag_code d) = 0"
  by (simp add: dropSem_def semCodes_def isSource_def count_list_filter_neq)

lemma count_dropSem_elsewhere:
  "\<not> isSource d s \<Longrightarrow> sem_id s \<noteq> t \<Longrightarrow>
     count_list (semCodes (dropSem d t i s)) (drag_code d) = count_list (semCodes s) (drag_code d)"
  by (auto simp: dropSem_def isSource_def)

lemma count_dropSem_target:
  assumes "\<not> isSource d s" and "sem_id s = t" and "count_list (semCodes s) (drag_code d) = 0"
  shows "count_list (semCodes (dropSem d t i s)) (drag_code d) = 1"
proof -
  from assms(3) have "\<not> list_ex (\<lambda>m. code m = drag_code d) (modules s)"
    by (simp add: semCodes_def count_list_map_0_iff)
  with assms show ?thesis
    by (auto simp: dropSem_def isSource_def semCodes_def Let_def count_spliceInsert
        split: option.splits)
qed

lemma count_selectSem_other:
  "c \<noteq> mc \<Longrightarrow> count_list (semCodes (selectSem sid mc ttl s)) c = count_list (semCodes s) c"
  by (simp add: selectSem_def semCodes_def)

lemma count_selectSem_fresh:
  assumes "count_list (semCodes s) mc = 0"
  shows "count_list (semCodes (selectSem sid mc ttl s)) mc = (if sem_id s = sid then 1 else 0)"
proof -
  from assms have "\<not> list_ex (\<lambda>m. code m = mc) (modules s)"
    by (simp add: semCodes_def count_list_map_0_iff)
  with assms show ?thesis by (simp add: selectSem_def semCodes_def)
qed

subsection \<open>handleDrop keeps the codes unique\<close>

lemma uniqueCodes_count:
  "uniqueCodes b \<longleftrightarrow>
     (\<forall>c. count_list (planCodes (academicYears b)) c
            + count_list (map staged_code (stagedModules b)) c \<le> 1)"
  by (simp add: uniqueCodes_def distinct_count_list)

lemma not_exists_count_0:
  assumes "\<not> moduleExistsInPlan d ays" and "s \<in> set (allSems ays)" and "\<not> isSource d s"
  shows "count_list (semCodes s) (drag_code d) = 0"
proof -
  from assms(2) obtain y where y: "y \<in> set ays" "s \<in> set (semesters y)"
    by (auto simp: set_allSems)
  from assms(1) y have
    "\<not> (if drag_source d = FromSemester \<and> Some (sem_id s) = drag_sourceId d then False
        else list_ex (\<lambda>m. code m = drag_code d) (modules s))"
    unfolding moduleExistsInPlan_def list_ex_iff by blast
  with assms(3) show ?thesis
    by (auto simp: isSource_def semCodes_def count_list_map_0_iff split: if_splits)
qed

lemma not_found_other_id:
  "\<not> targetFound t ays \<Longrightarrow> s \<in> set (allSems ays) \<Longrightarrow> sem_id s \<noteq> t"
  by (auto simp: targetFound_def list_ex_iff set_allSems)

lemma drop_count_other:
  "c \<noteq> drag_code d \<Longrightarrow>
     count_list (planCodes (mapSemesters (dropSem d t i) ays)) c = count_list (planCodes ays) c"
proof -
  assume "c \<noteq> drag_code d"
  then have "sum_list (map (\<lambda>s. count_list (semCodes (dropSem d t i s)) c) (allSems ays)) =
      sum_list (map (\<lambda>s. count_list (semCodes s) c) (allSems ays))"
    by (simp add: count_dropSem_other)
  then show ?thesis by (simp only: count_planCodes allSems_mapSemesters map_map comp_def)
qed

lemma drop_count_code:
  assumes ids: "distinct (semIds ays)"
      and old: "count_list (planCodes ays) (drag_code d) \<le> 1"
      and acc: "\<not> (targetFound t ays \<and> moduleExistsInPlan d ays)"
  shows "count_list (planCodes (mapSemesters (dropSem d t i) ays)) (drag_code d) \<le> 1"
proof (cases "moduleExistsInPlan d ays")
  case False
  have "count_list (semCodes (dropSem d t i s)) (drag_code d) \<le> (if sem_id s = t then 1 else 0)"
    if "s \<in> set (allSems ays)" for s
  proof (cases "isSource d s")
    case True
    then show ?thesis by (simp add: count_dropSem_source)
  next
    case ns: False
    from not_exists_count_0 [OF False that ns]
    have z: "count_list (semCodes s) (drag_code d) = 0" .
    show ?thesis
    proof (cases "sem_id s = t")
      case True
      with count_dropSem_target [OF ns True z] show ?thesis by simp
    next
      case False
      with count_dropSem_elsewhere [OF ns False] z show ?thesis by simp
    qed
  qed
  then have "sum_list (map (\<lambda>s. count_list (semCodes (dropSem d t i s)) (drag_code d)) (allSems ays))
      \<le> sum_list (map (\<lambda>s. if sem_id s = t then 1 else 0) (allSems ays))"
    by (rule sum_list_mono)
  also have "\<dots> \<le> 1" by (rule count_target_le_1 [OF ids])
  finally show ?thesis by (simp add: count_planCodes_map)
next
  case True
  with acc have nf: "\<not> targetFound t ays" by simp
  have "count_list (semCodes (dropSem d t i s)) (drag_code d)
      \<le> count_list (semCodes s) (drag_code d)"
    if "s \<in> set (allSems ays)" for s
  proof (cases "isSource d s")
    case True
    then show ?thesis by (simp add: count_dropSem_source)
  next
    case False
    from count_dropSem_elsewhere [OF False not_found_other_id [OF nf that]]
    show ?thesis by simp
  qed
  then have "sum_list (map (\<lambda>s. count_list (semCodes (dropSem d t i s)) (drag_code d)) (allSems ays))
      \<le> sum_list (map (\<lambda>s. count_list (semCodes s) (drag_code d)) (allSems ays))"
    by (rule sum_list_mono)
  with old show ?thesis by (simp only: count_planCodes allSems_mapSemesters map_map comp_def)
qed

lemma reorder_count:
  "count_list (planCodes (mapSemesters (reorderSem t c i) ays)) c' = count_list (planCodes ays) c'"
  by (simp only: count_planCodes allSems_mapSemesters map_map comp_def count_reorderSem)

lemma source_holds_code:
  assumes "dragConsistent b" and "draggingModule b = Some d" and "drag_source d = FromSemester"
  shows "1 \<le> count_list (planCodes (academicYears b)) (drag_code d)"
proof -
  from assms obtain y s where y: "y \<in> set (academicYears b)" "s \<in> set (semesters y)"
    and h: "list_ex (\<lambda>m. code m = drag_code d) (modules s)"
    by (auto simp: dragConsistent_def list_ex_iff)
  from y have s: "s \<in> set (allSems (academicYears b))" by (auto simp: set_allSems)
  from h have "count_list (semCodes s) (drag_code d) \<noteq> 0"
    by (simp add: semCodes_def count_list_map_0_iff)
  then have "1 \<le> count_list (semCodes s) (drag_code d)" by simp
  also from s have "count_list (semCodes s) (drag_code d)
      \<le> sum_list (map (\<lambda>s. count_list (semCodes s) (drag_code d)) (allSems (academicYears b)))"
    by (simp add: member_le_sum_list)
  finally show ?thesis by (simp add: count_planCodes)
qed

lemma handleDrop_keeps_unique:
  assumes ids: "distinct (semIds (academicYears b))"
      and uniq: "uniqueCodes b" and cons: "dragConsistent b"
  shows "uniqueCodes (handleDrop t i b)"
proof (cases "draggingModule b")
  case None
  with uniq show ?thesis by (simp add: handleDrop_def)
next
  case (Some d)
  let ?ays = "academicYears b" and ?st = "stagedModules b"
  from uniq have u: "count_list (planCodes ?ays) c + count_list (map staged_code ?st) c \<le> 1" for c
    by (simp add: uniqueCodes_count)
  consider (reorder) "drag_source d = FromSemester \<and> drag_sourceId d = Some t"
    | (reject) "\<not> (drag_source d = FromSemester \<and> drag_sourceId d = Some t)"
        "targetFound t ?ays \<and> moduleExistsInPlan d ?ays"
    | (move) "\<not> (drag_source d = FromSemester \<and> drag_sourceId d = Some t)"
        "\<not> (targetFound t ?ays \<and> moduleExistsInPlan d ?ays)"
    by blast
  then show ?thesis
  proof cases
    case reorder
    with Some have st: "stagedModules (handleDrop t i b) = ?st"
      and ay: "academicYears (handleDrop t i b) =
        (case i of None \<Rightarrow> ?ays | Some j \<Rightarrow> mapSemesters (reorderSem t (drag_code d) j) ?ays)"
      by (simp_all add: handleDrop_def)
    have "count_list (planCodes (academicYears (handleDrop t i b))) c = count_list (planCodes ?ays) c"
      for c
      using ay by (cases i) (simp_all add: reorder_count)
    with u show ?thesis by (simp add: uniqueCodes_count st)
  next
    case reject
    then have r: "(drag_source d = FromSemester \<and> drag_sourceId d = Some t) = False"
      "(targetFound t ?ays \<and> moduleExistsInPlan d ?ays) = True"
      by simp_all
    from Some have "stagedModules (handleDrop t i b) = ?st"
      and "academicYears (handleDrop t i b) = ?ays"
      by (simp_all add: handleDrop_def r)
    with u show ?thesis by (simp add: uniqueCodes_count)
  next
    case move
    then have r: "(drag_source d = FromSemester \<and> drag_sourceId d = Some t) = False"
      "(targetFound t ?ays \<and> moduleExistsInPlan d ?ays) = False"
      by simp_all
    from Some have ay: "academicYears (handleDrop t i b) = mapSemesters (dropSem d t i) ?ays"
      and st: "stagedModules (handleDrop t i b) =
        (if drag_source d = FromStaged then filter (\<lambda>m. staged_code m \<noteq> drag_code d) ?st
         else ?st)"
      by (simp_all add: handleDrop_def r)
    have "count_list (planCodes (academicYears (handleDrop t i b))) c
        + count_list (map staged_code (stagedModules (handleDrop t i b))) c \<le> 1" for c
    proof (cases "c = drag_code d")
      case False
      then have "count_list (map staged_code (stagedModules (handleDrop t i b))) c =
          count_list (map staged_code ?st) c"
        by (simp add: st count_list_filter_neq)
      with False u [of c] show ?thesis by (simp add: ay drop_count_other)
    next
      case True
      from u [of "drag_code d"] have old: "count_list (planCodes ?ays) (drag_code d) \<le> 1" by simp
      from drop_count_code [OF ids old move(2)]
      have new: "count_list (planCodes (mapSemesters (dropSem d t i) ?ays)) (drag_code d) \<le> 1" .
      have "count_list (map staged_code (stagedModules (handleDrop t i b))) (drag_code d) = 0"
      proof (cases "drag_source d")
        case FromStaged
        then show ?thesis by (simp add: st count_list_filter_neq)
      next
        case FromSemester
        from source_holds_code [OF cons Some FromSemester] u [of "drag_code d"]
        have "count_list (map staged_code ?st) (drag_code d) = 0" by simp
        with FromSemester show ?thesis by (simp add: st)
      qed
      with new True show ?thesis by (simp add: ay)
    qed
    then show ?thesis by (simp add: uniqueCodes_count)
  qed
qed

lemma handleDrop_semIds: "semIds (academicYears (handleDrop t i b)) = semIds (academicYears b)"
proof -
  have 1: "sem_id (reorderSem t c j s) = sem_id s" for c j s
    by (simp add: reorderSem_def Let_def)
  have 2: "sem_id (dropSem d t i s) = sem_id s" for d s
    by (simp add: dropSem_def Let_def)
  show ?thesis
    by (simp add: handleDrop_def semIds_mapSemesters 1 2 split: option.splits)
qed

subsection \<open>Search-based addition keeps the placed codes unique\<close>

lemma allModulesInPlan_planCodes:
  "concat (map (\<lambda>y. concat (map (\<lambda>s. map code (modules s)) (semesters y))) ays) = planCodes ays"
proof -
  have "semCodes = (\<lambda>s. map code (modules s))"
    by (simp add: fun_eq_iff semCodes_def)
  then show ?thesis
    by (induction ays) (simp_all add: planCodes_allSems allSems_def)
qed

lemma shown_not_in_plan:
  assumes "k < length (filterSearchResults ays results)"
  shows "res_code (filterSearchResults ays results ! k) \<notin> set (planCodes ays)"
proof -
  let ?f = "filter (\<lambda>r. res_code r \<notin> set (planCodes ays)) results"
  have eq: "filterSearchResults ays results = take 5 ?f"
    by (simp add: filterSearchResults_def allModulesInPlan_planCodes)
  with assms have "filterSearchResults ays results ! k \<in> set (take 5 ?f)"
    by (metis nth_mem)
  then have "filterSearchResults ays results ! k \<in> set ?f"
    by (rule in_set_takeD)
  then show ?thesis by simp
qed

lemma select_keeps_distinct:
  assumes ids: "distinct (semIds ays)" and d: "distinct (planCodes ays)"
      and fresh: "mc \<notin> set (planCodes ays)"
  shows "distinct (planCodes (mapSemesters (selectSem sid mc ttl) ays))"
proof -
  have z: "count_list (semCodes s) mc = 0" if "s \<in> set (allSems ays)" for s
  proof -
    from that have "set (semCodes s) \<subseteq> set (planCodes ays)"
      by (auto simp: planCodes_allSems)
    with fresh show ?thesis by (auto simp: count_list_0_iff)
  qed
  have "count_list (planCodes (mapSemesters (selectSem sid mc ttl) ays)) c \<le> 1" for c
  proof (cases "c = mc")
    case True
    have "sum_list (map (\<lambda>s. count_list (semCodes (selectSem sid mc ttl s)) mc) (allSems ays)) =
        sum_list (map (\<lambda>s. if sem_id s = sid then 1 else 0) (allSems ays))"
      by (rule arg_cong [where f = sum_list]) (simp add: count_selectSem_fresh z)
    also have "\<dots> \<le> 1" by (rule count_target_le_1 [OF ids])
    finally show ?thesis by (simp add: True count_planCodes_map)
  next
    case False
    then have "sum_list (map (\<lambda>s. count_list (semCodes (selectSem sid mc ttl s)) c) (allSems ays)) =
        sum_list (map (\<lambda>s. count_list (semCodes s) c) (allSems ays))"
      by (simp add: count_selectSem_other)
    then have "count_list (planCodes (mapSemesters (selectSem sid mc ttl) ays)) c =
        count_list (planCodes ays) c"
      by (simp only: count_planCodes allSems_mapSemesters map_map comp_def)
    with d show ?thesis by (simp add: distinct_count_list)
  qed
  then show ?thesis by (simp add: distinct_count_list)
qed

lemma searchAdd_keeps_distinct:
  assumes "distinct (semIds (academicYears b))" and "distinct (planCodes (academicYears b))"
  shows "distinct (planCodes (academicYears (searchAdd sid results k b)))"
proof (cases "k < length (filterSearchResults (academicYears b) results)")
  case True
  from select_keeps_distinct [OF assms shown_not_in_plan [OF True]] True
  show ?thesis by (simp add: searchAdd_def handleModuleSelect_def Let_def)
next
  case False
  with assms(2) show ?thesis by (simp add: searchAdd_def Let_def)
qed

lemma searchAdd_semIds: "semIds (academicYears (searchAdd sid results k b)) = semIds (academicYears b)"
proof -
  have "sem_id (selectSem sid mc ttl s) = sem_id s" for mc ttl s
    by (simp add: selectSem_def)
  then show ?thesis
    by (simp add: searchAdd_def handleModuleSelect_def Let_def semIds_mapSemesters)
qed

section \<open>Properties of the debounced validation\<close>

lemma validationStep_timerIsCurrent:
  "timerIsCurrent st \<Longrightarrow> timerIsCurrent (validationStep cp co ev st)"
  by (cases ev) (auto simp: timerIsCurrent_def split: option.splits)

lemma runValidation_timerIsCurrent:
  "timerIsCurrent st \<Longrightarrow> timerIsCurrent (runValidation cp co evs st)"
  unfolding runValidation_def
  by (induction evs arbitrary: st) (simp_all add: validationStep_timerIsCurrent)

section \<open>Claims about the validator\<close>

text \<open>
  C1. For a planned course that is not flagged fluff, placed in a semester of order
  \<open>year * 10 + semester number\<close>, the validator hands to the prerequisite check exactly
  the codes placed in semesters of strictly smaller order together with the codes of all
  exempted (staged) courses. With course codes unique in the plan, the entry recorded for
  the course is the list of missing codes that the check returned when it reports the rule
  unsatisfied (and nothing otherwise), so the display reads back exactly the missing codes.
  A course of the same semester that is not exempted is not among the available codes.
\<close>

theorem prerequisite_check_uses_strictly_earlier_semesters:
  assumes "distinct (planCodes ays)"
      and "y \<in> set ays" and "s \<in> set (semesters y)" and "m \<in> set (modules s)"
      and "\<not> fluff m"
  shows "semOrderOf y s = year y * 10 + (if CHR ''1'' \<in> set (name s) then 1 else 2) \<and>
         set (completedBefore ays staged (semOrderOf y s)) =
           {code m' | y' s' m'. y' \<in> set ays \<and> s' \<in> set (semesters y') \<and> m' \<in> set (modules s')
              \<and> semOrderOf y' s' < semOrderOf y s} \<union> staged_code ` set staged \<and>
         fst (checkAllConstraints cp co ays staged) (code m) =
           (case cp (code m) (completedBefore ays staged (semOrderOf y s)) of
              None \<Rightarrow> None
            | Some r \<Rightarrow> if \<not> satisfied r \<and> missing r \<noteq> [] then Some (missing r) else None) \<and>
         (\<forall>r. cp (code m) (completedBefore ays staged (semOrderOf y s)) = Some r \<and> \<not> satisfied r
            \<longrightarrow> missingPrereqs (checkAllConstraints cp co ays staged) (code m) = missing r) \<and>
         (\<forall>m' \<in> set (modules s). code m' \<notin> staged_code ` set staged
            \<longrightarrow> code m' \<notin> set (completedBefore ays staged (semOrderOf y s)))"
proof (intro conjI)
  show "semOrderOf y s = year y * 10 + (if CHR ''1'' \<in> set (name s) then 1 else 2)"
    by (simp add: semOrderOf_def semNumOf_def)
  show "set (completedBefore ays staged (semOrderOf y s)) =
           {code m' | y' s' m'. y' \<in> set ays \<and> s' \<in> set (semesters y') \<and> m' \<in> set (modules s')
              \<and> semOrderOf y' s' < semOrderOf y s} \<union> staged_code ` set staged"
    by (rule set_completedBefore)
  from assms(2-4) have p: "(y, s, m) \<in> set (placements ays)"
    by (simp add: set_placements)
  have entry: "fst (checkAllConstraints cp co ays staged) (code m) =
      prereqEntry cp (completedBefore ays staged (semOrderOf y s)) m"
    using prereq_violation_exact [OF assms(1) p, of cp co staged] assms(5)
    by (simp add: placementCode_def placementPrereqEntry_def)
  then show "fst (checkAllConstraints cp co ays staged) (code m) =
           (case cp (code m) (completedBefore ays staged (semOrderOf y s)) of
              None \<Rightarrow> None
            | Some r \<Rightarrow> if \<not> satisfied r \<and> missing r \<noteq> [] then Some (missing r) else None)"
    by (simp add: prereqEntry_def)
  show "\<forall>r. cp (code m) (completedBefore ays staged (semOrderOf y s)) = Some r \<and> \<not> satisfied r
            \<longrightarrow> missingPrereqs (checkAllConstraints cp co ays staged) (code m) = missing r"
    by (simp add: missingPrereqs_def entry prereqEntry_def)
  show "\<forall>m' \<in> set (modules s). code m' \<notin> staged_code ` set staged
            \<longrightarrow> code m' \<notin> set (completedBefore ays staged (semOrderOf y s))"
  proof (intro ballI impI notI)
    fix m'
    assume m': "m' \<in> set (modules s)"
       and ns: "code m' \<notin> staged_code ` set staged"
       and "code m' \<in> set (completedBefore ays staged (semOrderOf y s))"
    with set_completedBefore [of ays staged "semOrderOf y s"]
    obtain y' s' m'' where q: "y' \<in> set ays" "s' \<in> set (semesters y')" "m'' \<in> set (modules s')"
      and lt: "semOrderOf y' s' < semOrderOf y s" and c: "code m' = code m''"
      by auto
    from q have q': "(y', s', m'') \<in> set (placements ays)" by (simp add: set_placements)
    from assms(2,3) m' have p': "(y, s, m') \<in> set (placements ays)"
      by (simp add: set_placements)
    from c have "placementCode (y, s, m') = placementCode (y', s', m'')"
      by (simp add: placementCode_def)
    from distinct_plan_same_placement [OF assms(1) p' q' this]
    have "(y, s, m') = (y', s', m'')" .
    with lt show False by simp
  qed
qed

theorem prerequisite_check_same_semester_witness:
  "distinct (planCodes planSameSemester) \<and>
   fst (checkAllConstraints demoPrereqs demoOffered planSameSemester []) ''CS2040S''
     = Some [''CS1101S''] \<and>
   missingPrereqs (checkAllConstraints demoPrereqs demoOffered planSameSemester []) ''CS2040S''
     = [''CS1101S''] \<and>
   ''CS1101S'' \<notin> set (completedBefore planSameSemester [] 11)"
proof -
  let ?y = "mkYear 1 [mkSemester 1 ''Semester 1'' [mkModule ''CS1101S'', mkModule ''CS2040S''],
                      mkSemester 2 ''Semester 2'' []]"
  let ?s = "mkSemester 1 ''Semester 1'' [mkModule ''CS1101S'', mkModule ''CS2040S'']"
  have d: "distinct (planCodes planSameSemester)"
    by (simp add: planCodes_def placements_def planSameSemester_def mkYear_def mkSemester_def
        mkModule_def)
  have y: "?y \<in> set planSameSemester" by (simp add: planSameSemester_def)
  have s: "?s \<in> set (semesters ?y)" by (simp add: mkYear_def)
  have m: "mkModule ''CS2040S'' \<in> set (modules ?s)" by (simp add: mkSemester_def)
  have f: "\<not> fluff (mkModule ''CS2040S'')" by (simp add: mkModule_def)
  have ord: "semOrderOf ?y ?s = 11"
    by (simp add: semOrderOf_def semNumOf_def mkYear_def mkSemester_def)
  have cb: "completedBefore planSameSemester [] 11 = []"
    by (simp add: completedBefore_def planSameSemester_def mkYear_def mkSemester_def
        semOrderOf_def semNumOf_def)
  note th = prerequisite_check_uses_strictly_earlier_semesters
      [OF d y s m f, of "[]" demoPrereqs demoOffered, unfolded ord cb]
  have c: "code (mkModule ''CS2040S'') = ''CS2040S''" by (simp add: mkModule_def)
  from th have "fst (checkAllConstraints demoPrereqs demoOffered planSameSemester []) ''CS2040S''
     = Some [''CS1101S'']"
    by (simp add: c demoPrereqs_def)
  moreover from th
  have "missingPrereqs (checkAllConstraints demoPrereqs demoOffered planSameSemester []) ''CS2040S''
     = [''CS1101S'']"
    by (simp add: c demoPrereqs_def)
  ultimately show ?thesis using d cb by simp
qed

text \<open>
  C9. When the prerequisite lookup fails for every placement of a code, no prerequisite
  violation is recorded under that code, and when the offering lookup fails for every
  placement of a code, no offering violation is recorded under it: a failed lookup never
  marks the course as violating.
\<close>

theorem lookup_failure_is_fail_open:
  "((\<forall>y \<in> set ays. \<forall>s \<in> set (semesters y). \<forall>m \<in> set (modules s). code m = c \<longrightarrow>
        cp c (completedBefore ays staged (semOrderOf y s)) = None)
      \<longrightarrow> fst (checkAllConstraints cp co ays staged) c = None) \<and>
   ((\<forall>y \<in> set ays. \<forall>s \<in> set (semesters y). \<forall>m \<in> set (modules s). code m = c \<longrightarrow>
        co c (semNumOf s) = None)
      \<longrightarrow> snd (checkAllConstraints cp co ays staged) c = None)"
proof (intro conjI impI)
  assume fails: "\<forall>y \<in> set ays. \<forall>s \<in> set (semesters y). \<forall>m \<in> set (modules s). code m = c \<longrightarrow>
        cp c (completedBefore ays staged (semOrderOf y s)) = None"
  show "fst (checkAllConstraints cp co ays staged) c = None"
  proof (rule ccontr)
    assume "fst (checkAllConstraints cp co ays staged) c \<noteq> None"
    then obtain ms where "fst (checkAllConstraints cp co ays staged) c = Some ms" by auto
    from prereq_violation_sound [OF this]
    obtain y s m where p: "(y, s, m) \<in> set (placements ays)" and c: "code m = c"
      and e: "placementPrereqEntry cp ays staged (y, s, m) = Some ms"
      by (auto simp: placementCode_def)
    from p fails c have "cp c (completedBefore ays staged (semOrderOf y s)) = None"
      by (auto simp: set_placements)
    with e c show False
      by (simp add: placementPrereqEntry_def prereqEntry_def split: if_splits)
  qed
next
  assume fails: "\<forall>y \<in> set ays. \<forall>s \<in> set (semesters y). \<forall>m \<in> set (modules s). code m = c \<longrightarrow>
        co c (semNumOf s) = None"
  show "snd (checkAllConstraints cp co ays staged) c = None"
  proof (rule ccontr)
    assume "snd (checkAllConstraints cp co ays staged) c \<noteq> None"
    then obtain msg where "snd (checkAllConstraints cp co ays staged) c = Some msg" by auto
    from offering_violation_sound [OF this]
    obtain y s m where p: "(y, s, m) \<in> set (placements ays)" and c: "code m = c"
      and e: "placementOfferingEntry co (y, s, m) = Some msg"
      by (auto simp: placementCode_def)
    from p fails c have "co c (semNumOf s) = None"
      by (auto simp: set_placements)
    with e c show False
      by (simp add: placementOfferingEntry_def offeringEntry_def split: if_splits)
  qed
qed

theorem lookup_failure_is_fail_open_witness:
  "''ZZ9999'' \<in> set (planCodes planUnknownCode) \<and>
   demoPrereqs ''ZZ9999'' (completedBefore planUnknownCode [] 11) = None \<and>
   demoOffered ''ZZ9999'' 1 = None \<and>
   fst (checkAllConstraints demoPrereqs demoOffered planUnknownCode []) ''ZZ9999'' = None \<and>
   snd (checkAllConstraints demoPrereqs demoOffered planUnknownCode []) ''ZZ9999'' = None"
proof -
  have h1: "\<forall>y \<in> set planUnknownCode. \<forall>s \<in> set (semesters y). \<forall>m \<in> set (modules s).
      code m = ''ZZ9999'' \<longrightarrow>
        demoPrereqs ''ZZ9999'' (completedBefore planUnknownCode [] (semOrderOf y s)) = None"
    by (simp add: demoPrereqs_def)
  have h2: "\<forall>y \<in> set planUnknownCode. \<forall>s \<in> set (semesters y). \<forall>m \<in> set (modules s).
      code m = ''ZZ9999'' \<longrightarrow> demoOffered ''ZZ9999'' (semNumOf s) = None"
    by (simp add: demoOffered_def)
  have p: "''ZZ9999'' \<in> set (planCodes planUnknownCode)"
    by (simp add: planCodes_def placements_def planUnknownCode_def mkYear_def mkSemester_def
        mkModule_def)
  have f: "demoPrereqs ''ZZ9999'' (completedBefore planUnknownCode [] 11) = None"
    "demoOffered ''ZZ9999'' 1 = None"
    by (simp_all add: demoPrereqs_def demoOffered_def)
  from lookup_failure_is_fail_open [of planUnknownCode "''ZZ9999''" demoPrereqs "[]" demoOffered]
    h1 h2
  have "fst (checkAllConstraints demoPrereqs demoOffered planUnknownCode []) ''ZZ9999'' = None \<and>
   snd (checkAllConstraints demoPrereqs demoOffered planUnknownCode []) ''ZZ9999'' = None"
    by blast
  with p f show ?thesis by simp
qed

section \<open>Claims about the progress snapshot\<close>

text \<open>
  C6. For every plan, exempted courses, pointer and number addition: each course is
  counted where its code occurs for the first time, the exempted courses first and then
  the placed courses in plan order; the completed, the current and the planned total are
  the credits of the counted courses of the respective kind, added in that order, where a
  placed course is completed, current or planned as the order of its semester is smaller
  than, equal to or greater than \<open>currentYear * 10 + currentSemester\<close> and an exempted
  course is completed; the grand total adds the three. Every code of an exempted or a
  placed course is the code of exactly one counted course, and every exempted course is
  among the counted courses as a completed one. When no code repeats, every course is
  counted. The
  pointer \<^verbatim>\<open>Y0S0\<close> parses to \<open>(0, 0)\<close>, and then every placed course of a plan whose
  years are not negative is a planned one and the current total is 0.
\<close>

theorem progress_snapshot_partitions_by_semester_order:
  "completed (progressionStats add cy cs ays staged) =
     spec_total add Completed (spec_counted (spec_entries (cy * 10 + cs) ays staged)) \<and>
   current (progressionStats add cy cs ays staged) =
     spec_total add Current (spec_counted (spec_entries (cy * 10 + cs) ays staged)) \<and>
   planned (progressionStats add cy cs ays staged) =
     spec_total add Planned (spec_counted (spec_entries (cy * 10 + cs) ays staged)) \<and>
   total (progressionStats add cy cs ays staged) =
     add (add (completed (progressionStats add cy cs ays staged))
              (current (progressionStats add cy cs ays staged)))
         (planned (progressionStats add cy cs ays staged)) \<and>
   distinct (map fst (spec_counted (spec_entries (cy * 10 + cs) ays staged))) \<and>
   fst ` set (spec_counted (spec_entries (cy * 10 + cs) ays staged)) =
     fst ` set (spec_entries (cy * 10 + cs) ays staged) \<and>
   (\<forall>m \<in> set staged. staged_type m = Exempted \<longrightarrow>
      (\<exists>n. (staged_code m, n, Completed)
             \<in> set (spec_counted (spec_entries (cy * 10 + cs) ays staged)))) \<and>
   (distinct (map fst (spec_entries (cy * 10 + cs) ays staged)) \<longrightarrow>
      spec_counted (spec_entries (cy * 10 + cs) ays staged) =
        spec_entries (cy * 10 + cs) ays staged) \<and>
   parseCurrentSemester ''Y0S0'' = (0, 0) \<and>
   ((\<forall>y \<in> set ays. 0 \<le> year y) \<longrightarrow>
      spec_entries 0 ays staged =
        map spec_exemptedEntry (filter (\<lambda>m. staged_type m = Exempted) staged)
        @ map (\<lambda>(y, s, m). (code m,
                 (case units m of None \<Rightarrow> Finite 4
                  | Some u \<Rightarrow> if u = Finite 0 \<or> u = NaN then Finite 4 else u), Planned))
            (placements ays) \<and>
      current (progressionStats add 0 0 ays staged) = Finite 0)"
proof (intro conjI impI ballI)
  show "completed (progressionStats add cy cs ays staged) =
     spec_total add Completed (spec_counted (spec_entries (cy * 10 + cs) ays staged))"
    by (rule progressionStats_counted)
  show "current (progressionStats add cy cs ays staged) =
     spec_total add Current (spec_counted (spec_entries (cy * 10 + cs) ays staged))"
    by (rule progressionStats_counted)
  show "planned (progressionStats add cy cs ays staged) =
     spec_total add Planned (spec_counted (spec_entries (cy * 10 + cs) ays staged))"
    by (rule progressionStats_counted)
  show "total (progressionStats add cy cs ays staged) =
     add (add (completed (progressionStats add cy cs ays staged))
              (current (progressionStats add cy cs ays staged)))
         (planned (progressionStats add cy cs ays staged))"
    by (rule progressionStats_counted)
  show "distinct (map fst (spec_counted (spec_entries (cy * 10 + cs) ays staged)))"
    by (simp add: spec_counted_countedFrom distinct_countedFrom)
  show "fst ` set (spec_counted (spec_entries (cy * 10 + cs) ays staged)) =
     fst ` set (spec_entries (cy * 10 + cs) ays staged)"
    by (simp add: spec_counted_countedFrom keys_countedFrom)
  show "\<exists>n. (staged_code m, n, Completed)
             \<in> set (spec_counted (spec_entries (cy * 10 + cs) ays staged))"
    if "m \<in> set staged" "staged_type m = Exempted" for m
    using that by (rule exempted_is_counted_completed)
  show "spec_counted (spec_entries (cy * 10 + cs) ays staged) =
        spec_entries (cy * 10 + cs) ays staged"
    if "distinct (map fst (spec_entries (cy * 10 + cs) ays staged))"
    using that by (rule spec_counted_distinct)
  show "parseCurrentSemester ''Y0S0'' = (0, 0)"
    by (simp add: parseCurrentSemester_def)
next
  assume years: "\<forall>y \<in> set ays. 0 \<le> year y"
  show "spec_entries 0 ays staged =
        map spec_exemptedEntry (filter (\<lambda>m. staged_type m = Exempted) staged)
        @ map (\<lambda>(y, s, m). (code m,
                 (case units m of None \<Rightarrow> Finite 4
                  | Some u \<Rightarrow> if u = Finite 0 \<or> u = NaN then Finite 4 else u), Planned))
            (placements ays)"
    by (simp add: spec_entries_def sentinel_entries [OF years])
  show "current (progressionStats add 0 0 ays staged) = Finite 0"
    using progressionStats_counted(2) [of add 0 0 ays staged] sentinel_no_current [OF years]
    by simp
qed

lemma planCredits_entries:
  "spec_entries n planCredits stagedCredits =
     [(''MA1301'', Finite 8, Completed), (''MA1301'', Finite 8, Completed),
      (''CS1101S'', Finite 2, spec_bucket n 11), (''CS2040S'', Finite 4, spec_bucket n 12),
      (''MA1301'', Finite 4, spec_bucket n 12), (''GEC1021'', Finite (5 / 2), spec_bucket n 21),
      (''ES2660'', Finite 4, spec_bucket n 21)]"
  by (simp add: spec_entries_def planCredits_def stagedCredits_def placements_def mkYear_def
      mkSemester_def spec_exemptedEntry_def spec_placedEntry_def semOrderOf_def semNumOf_def)

theorem progress_snapshot_partitions_witness:
  "parseCurrentSemester ''Y1S2'' = (1, 2) \<and>
   completed (progressionStats exactAdd 1 2 planCredits stagedCredits) = Finite 10 \<and>
   current (progressionStats exactAdd 1 2 planCredits stagedCredits) = Finite 4 \<and>
   planned (progressionStats exactAdd 1 2 planCredits stagedCredits) = Finite (13 / 2) \<and>
   total (progressionStats exactAdd 1 2 planCredits stagedCredits) = Finite (41 / 2) \<and>
   completed (progressionStats exactAdd 0 0 planCredits stagedCredits) = Finite 8 \<and>
   current (progressionStats exactAdd 0 0 planCredits stagedCredits) = Finite 0 \<and>
   planned (progressionStats exactAdd 0 0 planCredits stagedCredits) = Finite (25 / 2)"
proof -
  have ptr: "parseCurrentSemester ''Y1S2'' = (1, 2)"
    by (simp add: parseCurrentSemester_def isDigit_def digitVal_def)
  have years: "\<forall>y \<in> set planCredits. 0 \<le> year y"
    by (simp add: planCredits_def mkYear_def)
  have c12: "spec_counted (spec_entries (1 * 10 + 2) planCredits stagedCredits) =
      [(''MA1301'', Finite 8, Completed), (''CS1101S'', Finite 2, Completed),
       (''CS2040S'', Finite 4, Current), (''GEC1021'', Finite (5 / 2), Planned),
       (''ES2660'', Finite 4, Planned)]"
    by (simp add: spec_counted_countedFrom planCredits_entries spec_bucket_def)
  have c0: "spec_counted (spec_entries (0 * 10 + 0) planCredits stagedCredits) =
      [(''MA1301'', Finite 8, Completed), (''CS1101S'', Finite 2, Planned),
       (''CS2040S'', Finite 4, Planned), (''GEC1021'', Finite (5 / 2), Planned),
       (''ES2660'', Finite 4, Planned)]"
    by (simp add: spec_counted_countedFrom planCredits_entries spec_bucket_def)
  note a = progress_snapshot_partitions_by_semester_order
    [of exactAdd 1 2 planCredits stagedCredits, unfolded c12]
  note b = progress_snapshot_partitions_by_semester_order
    [of exactAdd 0 0 planCredits stagedCredits, unfolded c0]
  have 1: "completed (progressionStats exactAdd 1 2 planCredits stagedCredits) = Finite 10"
    "current (progressionStats exactAdd 1 2 planCredits stagedCredits) = Finite 4"
    "planned (progressionStats exactAdd 1 2 planCredits stagedCredits) = Finite (13 / 2)"
    using a by (simp_all add: spec_total_def exactAdd_def)
  from a have "total (progressionStats exactAdd 1 2 planCredits stagedCredits) =
      exactAdd (exactAdd (Finite 10) (Finite 4)) (Finite (13 / 2))"
    by (simp only: 1)
  then have 2: "total (progressionStats exactAdd 1 2 planCredits stagedCredits) = Finite (41 / 2)"
    by (simp add: exactAdd_def)
  have 3: "completed (progressionStats exactAdd 0 0 planCredits stagedCredits) = Finite 8"
    "planned (progressionStats exactAdd 0 0 planCredits stagedCredits) = Finite (25 / 2)"
    using b by (simp_all add: spec_total_def exactAdd_def)
  from b years have 4: "current (progressionStats exactAdd 0 0 planCredits stagedCredits) = Finite 0"
    by blast
  from ptr 1 2 3 4 show ?thesis by simp
qed



lemma planSpecialTerm_eq:
  "planSpecialTerm =
     [mkYear 1 [mkSemester 1 ''Semester 1'' [],
                mkSemester 2 ''Semester 2'' [mkModule ''CS2040S''],
                \<lparr>sem_id = 103, name = ''Special Term 1'', sem_units = 4,
                 modules = [mkModule ''CS1101S''], isExchange = False\<rparr>]]"
  by (simp add: planSpecialTerm_def handleModuleSelect_def emptyBoard_def addSpecialTerm_def
      mapSemesters_def selectSem_def termName_def mkYear_def mkSemester_def mkModule_def)

text \<open>
  C8. The validator, the matcher and the progress snapshot take the number of a semester
  from \<^verbatim>\<open>name.includes('1') ? 1 : 2\<close>, which gives Special Term 1 the number and the
  order of Semester 1, whereas \<^verbatim>\<open>handleExportPlan\<close> gives it the number 3. On the plan
  to which \<^verbatim>\<open>addSpecialTerm\<close> has added Special Term 1 and a search has added
  \<^verbatim>\<open>CS1101S\<close> there, the course is a completed one once the pointer is at Semester 2
  and it is available to the prerequisite check of Semester 2; without the special term
  neither is the case. On the generated plan whose second semester is the exchange
  semester, the header of the year leaves the exchange semester out of its total, and the
  progress snapshot counts the placeholder of the exchange.
\<close>

theorem special_term_and_exchange_courses_are_counted:
  "semOrderOf (hd planSpecialTerm) (last (semesters (hd planSpecialTerm))) = 11 \<and>
   exportSemNum (last (semesters (hd planSpecialTerm))) = 3 \<and>
   completed (progressionStats exactAdd 1 2 planSpecialTerm []) = Finite 4 \<and>
   completed (progressionStats exactAdd 1 2 (spec_regularSemestersOnly planSpecialTerm) [])
     = Finite 0 \<and>
   ''CS1101S'' \<in> set (completedBefore planSpecialTerm [] 12) \<and>
   ''CS1101S'' \<notin> set (completedBefore (spec_regularSemestersOnly planSpecialTerm) [] 12) \<and>
   fst (checkAllConstraints demoPrereqs demoOffered planSpecialTerm []) ''CS2040S'' = None \<and>
   fst (checkAllConstraints demoPrereqs demoOffered
          (spec_regularSemestersOnly planSpecialTerm) []) ''CS2040S'' = Some [''CS1101S''] \<and>
   yearTotalUnits (hd planExchange) = 4 \<and>
   total (progressionStats exactAdd 1 1 planExchange []) = Finite 8 \<and>
   total (progressionStats exactAdd 1 1 (spec_regularSemestersOnly planExchange) []) = Finite 4"
proof (intro conjI)
  note ex = planSpecialTerm_eq planExchange_def spec_regularSemestersOnly_def mkYear_def
    mkSemester_def mkModule_def
  note pr = progressionStats_def progressionAcc_def moduleStep_def creditOf_def orFour_def
    jsFalsy_def exactAdd_def Let_def
  note ch = checkAllConstraints_def checkYear_def checkSemester_def checkModule_def
    completedBefore_def semOrderOf_def semNumOf_def demoPrereqs_def demoOffered_def Let_def
  show "semOrderOf (hd planSpecialTerm) (last (semesters (hd planSpecialTerm))) = 11"
    by (simp add: ex semOrderOf_def semNumOf_def)
  show "exportSemNum (last (semesters (hd planSpecialTerm))) = 3"
    by (simp add: ex exportSemNum_def)
  show "completed (progressionStats exactAdd 1 2 planSpecialTerm []) = Finite 4"
    by (simp add: ex pr)
  show "completed (progressionStats exactAdd 1 2 (spec_regularSemestersOnly planSpecialTerm) [])
     = Finite 0"
    by (simp add: ex pr)
  show "''CS1101S'' \<in> set (completedBefore planSpecialTerm [] 12)"
    by (simp add: ex completedBefore_def semOrderOf_def semNumOf_def)
  show "''CS1101S'' \<notin> set (completedBefore (spec_regularSemestersOnly planSpecialTerm) [] 12)"
    by (simp add: ex completedBefore_def semOrderOf_def semNumOf_def)
  show "fst (checkAllConstraints demoPrereqs demoOffered planSpecialTerm []) ''CS2040S'' = None"
    by (simp add: ex ch)
  show "fst (checkAllConstraints demoPrereqs demoOffered
          (spec_regularSemestersOnly planSpecialTerm) []) ''CS2040S'' = Some [''CS1101S'']"
    by (simp add: ex ch)
  show "yearTotalUnits (hd planExchange) = 4"
    by (simp add: ex yearTotalUnits_def)
  show "total (progressionStats exactAdd 1 1 planExchange []) = Finite 8"
    by (simp add: ex pr)
  show "total (progressionStats exactAdd 1 1 (spec_regularSemestersOnly planExchange) []) = Finite 4"
    by (simp add: ex pr)
qed

section \<open>Claims about the matcher\<close>

text \<open>
  C2. The matcher does not look at the whole plan: with the pointer at Y1S1 (the default),
  the course \<^verbatim>\<open>GEC1021\<close> placed in Semester 1 of year 1 matches the wildcard
  \<^verbatim>\<open>GEC%\<close>, and the slot is reported unfulfilled. In the other direction the slot
  \<^verbatim>\<open>UE 1\<close> is reported fulfilled for the exempted course \<^verbatim>\<open>MA1301\<close>, which
  does not match the pattern of the slot.
\<close>

theorem matcher_ignores_current_and_future_semesters_counterexample:
  "parseCurrentSemester ''Y1S1'' = (1, 1) \<and>
   ''GEC1021'' \<in> set (planCodes planGEC) \<and>
   spec_matches ''GEC%'' ''GEC1021'' \<and>
   \<not> checkRequirement 1 1 planGEC [] ''GEC%'' \<and>
   checkRequirement 1 1 [] [mkExempted ''MA1301''] ''UE 1'' \<and>
   \<not> spec_matches ''UE 1'' ''MA1301''"
proof (intro conjI)
  show "parseCurrentSemester ''Y1S1'' = (1, 1)" by (rule pointer_examples)
  show "''GEC1021'' \<in> set (planCodes planGEC)"
    by (simp add: planCodes_def placements_def planGEC_def mkYear_def mkSemester_def mkModule_def)
  show "spec_matches ''GEC%'' ''GEC1021''"
    by (simp add: spec_matches_code endsWithPercent_def startsWith_def)
  have "allTakenModules 1 1 planGEC [] = []"
    by (simp add: allTakenModules_def planGEC_def mkYear_def mkSemester_def newSet_def Let_def)
  then show "\<not> checkRequirement 1 1 planGEC [] ''GEC%''"
    by (simp add: checkRequirement_def checkRequirementOn_def endsWithPercent_def Let_def)
  have taken: "allTakenModules 1 1 [] [mkExempted ''MA1301''] = [''MA1301'']"
    by (simp add: allTakenModules_def mkExempted_def newSet_def Let_def)
  have "''UE 1'' \<in> set ueSlots" and "''UE 1'' \<notin> set [''MA1301'']"
    by (simp_all add: ueSlots_eq)
  from checkRequirementOn_ue [OF this]
  have "checkRequirementOn [''MA1301''] ''UE 1'' = (0 < length (unconsumedOf [''MA1301'']))"
    by (simp add: ueIndexBelow_slots)
  moreover have "unconsumedOf [''MA1301''] = [''MA1301'']"
    unfolding unconsumedOf_def consumedOf_def REQUIREMENTS_def
    by (simp add: consumedStep_def base_examples base_slots endsWithPercent_def startsWith_def)
  ultimately show "checkRequirement 1 1 [] [mkExempted ''MA1301''] ''UE 1''"
    by (simp add: checkRequirement_def taken)
  show "\<not> spec_matches ''UE 1'' ''MA1301''"
  proof -
    have "getBaseCode ''UE 1'' = ''UE 1''"
      by (simp add: getBaseCode_def matchesBase_def)
    then show ?thesis
      by (simp add: spec_matches_code endsWithPercent_def base_examples)
  qed
qed

text \<open>
  C2, as the code has it. The base of a code that begins with two to four capital letters
  followed by four digits is these letters and digits, and any other code is its own base.
  A requirement slot is reported fulfilled if and only if some taken code (a code placed
  in a semester whose order is strictly smaller than \<open>currentYear * 10 + currentSemester\<close>,
  or the code of a staged course) has the base of the pattern or, for a pattern that ends
  in \<^verbatim>\<open>%\<close>, begins with the pattern without the \<^verbatim>\<open>%\<close>; or the pattern is no
  wildcard, starts with \<^verbatim>\<open>UE\<close>, and its number minus one is below the number of taken
  codes that match no slot of another category. For the slots of the categories other than
  the unrestricted electives the second case does not arise.
\<close>

theorem matcher_fulfilment_over_taken_codes:
  "(checkRequirement cy cs ays staged reqCode \<longleftrightarrow>
      (\<exists>c \<in> spec_taken (cy * 10 + cs) ays staged. spec_matches reqCode c)
      \<or> (\<not> endsWithPercent reqCode \<and> startsWith reqCode ''UE''
           \<and> ueIndexBelow reqCode
               (spec_unconsumedCount (spec_taken (cy * 10 + cs) ays staged)))) \<and>
   (cat \<in> set REQUIREMENTS \<and> category cat \<noteq> ''Unrestricted Electives''
      \<and> slot \<in> set (courses cat) \<longrightarrow>
      (checkRequirement cy cs ays staged (req_code slot) \<longleftrightarrow>
         (\<exists>c \<in> spec_taken (cy * 10 + cs) ays staged. spec_matches (req_code slot) c)))"
proof (intro conjI impI)
  show "checkRequirement cy cs ays staged reqCode \<longleftrightarrow>
      (\<exists>c \<in> spec_taken (cy * 10 + cs) ays staged. spec_matches reqCode c)
      \<or> (\<not> endsWithPercent reqCode \<and> startsWith reqCode ''UE''
           \<and> ueIndexBelow reqCode
               (spec_unconsumedCount (spec_taken (cy * 10 + cs) ays staged)))"
    by (rule checkRequirement_spec)
next
  assume "cat \<in> set REQUIREMENTS \<and> category cat \<noteq> ''Unrestricted Electives''
      \<and> slot \<in> set (courses cat)"
  then have "\<not> startsWith (req_code slot) ''UE''"
    using other_slots_not_elective [of cat slot] by blast
  then show "checkRequirement cy cs ays staged (req_code slot) \<longleftrightarrow>
         (\<exists>c \<in> spec_taken (cy * 10 + cs) ays staged. spec_matches (req_code slot) c)"
    by (simp add: checkRequirement_spec)
qed

theorem matcher_fulfilment_witness:
  "parseCurrentSemester ''Y1S2'' = (1, 2) \<and>
   spec_baseCode ''CS2040C'' = ''CS2040'' \<and> spec_baseCode ''CS2040S'' = ''CS2040'' \<and>
   checkRequirement 1 2 planMatcher stagedMatcher ''CS2040S'' \<and>
   checkRequirement 1 2 planMatcher stagedMatcher ''CS1231S'' \<and>
   checkRequirement 1 2 planMatcher stagedMatcher ''GEC%'' \<and>
   \<not> checkRequirement 1 2 planMatcher stagedMatcher ''CS2030S'' \<and>
   \<not> checkRequirement 1 2 planMatcher stagedMatcher ''MA1521'' \<and>
   \<not> checkRequirement 1 2 planMatcher stagedMatcher ''GES%''"
proof -
  let ?cat = "REQUIREMENTS ! 1"
  let ?slot = "\<lparr>req_code = ''CS2040S'', req_title = ''Data Structures & Algos''\<rparr>"
  have h: "?cat \<in> set REQUIREMENTS \<and> category ?cat \<noteq> ''Unrestricted Electives''
      \<and> ?slot \<in> set (courses ?cat)"
    by (simp add: REQUIREMENTS_def)
  have m: "spec_matches ''CS2040S'' ''CS2040C''" "spec_matches ''CS1231S'' ''CS1231''"
    "spec_matches ''GEC%'' ''GEC1021''"
    by (simp_all add: spec_matches_code base_examples base_slots endsWithPercent_def
        startsWith_def)
  have n: "\<not> (\<exists>c \<in> spec_taken 12 planMatcher stagedMatcher. spec_matches ''CS2030S'' c)"
    "\<not> (\<exists>c \<in> spec_taken 12 planMatcher stagedMatcher. spec_matches ''MA1521'' c)"
    "\<not> (\<exists>c \<in> spec_taken 12 planMatcher stagedMatcher. spec_matches ''GES%'' c)"
    by (simp_all add: planMatcher_spec_taken spec_matches_code base_examples base_slots
        endsWithPercent_def startsWith_def)
  have u: "\<not> startsWith ''CS2030S'' ''UE''" "\<not> startsWith ''MA1521'' ''UE''"
    "endsWithPercent ''GES%''"
    by (simp_all add: startsWith_def endsWithPercent_def)
  have 1: "checkRequirement 1 2 planMatcher stagedMatcher ''CS2040S''"
    using matcher_fulfilment_over_taken_codes [of 1 2 planMatcher stagedMatcher _ ?cat ?slot]
      h m(1)
    by (simp add: planMatcher_spec_taken)
  have 2: "checkRequirement 1 2 planMatcher stagedMatcher ''CS1231S''"
    "checkRequirement 1 2 planMatcher stagedMatcher ''GEC%''"
    using matcher_fulfilment_over_taken_codes [of 1 2 planMatcher stagedMatcher "''CS1231S''"]
      matcher_fulfilment_over_taken_codes [of 1 2 planMatcher stagedMatcher "''GEC%''"] m
    by (simp_all add: planMatcher_spec_taken)
  have 3: "\<not> checkRequirement 1 2 planMatcher stagedMatcher ''CS2030S''"
    "\<not> checkRequirement 1 2 planMatcher stagedMatcher ''MA1521''"
    "\<not> checkRequirement 1 2 planMatcher stagedMatcher ''GES%''"
    using matcher_fulfilment_over_taken_codes [of 1 2 planMatcher stagedMatcher "''CS2030S''"]
      matcher_fulfilment_over_taken_codes [of 1 2 planMatcher stagedMatcher "''MA1521''"]
      matcher_fulfilment_over_taken_codes [of 1 2 planMatcher stagedMatcher "''GES%''"] n u
    by simp_all
  have 4: "spec_baseCode ''CS2040C'' = ''CS2040''" "spec_baseCode ''CS2040S'' = ''CS2040''"
    by (simp_all add: spec_baseCode_def isUpper_def isDigit_def Let_def)
  from 1 2 3 4 pointer_examples(2) show ?thesis by simp
qed

text \<open>
  C3. Only the codes of strictly past semesters and of staged courses are taken codes:
  with the pointer at Y1S1, the course \<^verbatim>\<open>PC1201\<close> placed in Semester 1 of year 1
  matches no slot of a category other than the unrestricted electives, so that one code
  of the plan is not consumed; of the ten elective slots none is reported fulfilled.
\<close>

theorem elective_overflow_skips_current_semester_counterexample:
  "parseCurrentSemester ''Y1S1'' = (1, 1) \<and>
   planCodes planElective = [''PC1201''] \<and>
   spec_consumed (set (planCodes planElective)) = {} \<and>
   spec_unconsumedCount (set (planCodes planElective)) = 1 \<and>
   length ueSlots = 10 \<and>
   filter (checkRequirement 1 1 planElective []) ueSlots = []"
proof -
  have 1: "planCodes planElective = [''PC1201'']"
    by (simp add: planCodes_def placements_def planElective_def mkYear_def mkSemester_def
        mkModule_def)
  have c: "consumedOf [''PC1201''] = {}"
    unfolding consumedOf_def REQUIREMENTS_def
    by (simp add: consumedStep_def base_examples base_slots endsWithPercent_def startsWith_def)
  have 2: "spec_consumed {''PC1201''} = {}"
    using consumedOf_spec [of "[''PC1201'']"] by (simp add: c)
  have 3: "spec_unconsumedCount {''PC1201''} = 1"
    by (simp add: spec_unconsumedCount_def 2)
  have none: "allTakenModules 1 1 planElective [] = []"
    by (simp add: allTakenModules_def planElective_def mkYear_def mkSemester_def newSet_def
        Let_def)
  have empty: "checkRequirementOn [] r = ueIndexBelow r 0" if "r \<in> set ueSlots" for r
    using checkRequirementOn_ue [OF that, of "[]"] by (simp add: unconsumedOf_def)
  have 4: "filter (checkRequirement 1 1 planElective []) ueSlots = []"
    by (simp add: none checkRequirement_def ueSlots_eq empty ueIndexBelow_slots)
  from 1 2 3 4 pointer_examples(1) show ?thesis by (simp add: ueSlots_eq)
qed

text \<open>
  C3, as the code has it. With the taken codes as for C2 (codes of strictly past semesters
  and of staged courses) and \<open>N\<close> the number of taken codes that match no slot of a
  category other than the unrestricted electives: the elective slot at position \<open>i\<close>
  (counted from 0) of the ten slots is reported fulfilled exactly when \<open>i < N\<close> or the
  label of the slot is itself a taken code. When no label is a taken code, the fulfilled
  slots are the first \<open>N\<close> of the ten, \<open>min N 10\<close> in number: the answer depends on
  the unconsumed codes only through their number.
\<close>

theorem elective_overflow_allocation:
  "ueSlots = [''UE 1'', ''UE 2'', ''UE 3'', ''UE 4'', ''UE 5'', ''UE 6'', ''UE 7'', ''UE 8'',
              ''UE 9'', ''UE 10''] \<and>
   map (checkRequirement cy cs ays staged) ueSlots =
     map (\<lambda>i. ueSlots ! i \<in> spec_taken (cy * 10 + cs) ays staged
               \<or> i < spec_unconsumedCount (spec_taken (cy * 10 + cs) ays staged)) [0..<10] \<and>
   (spec_taken (cy * 10 + cs) ays staged \<inter> set ueSlots = {} \<longrightarrow>
      filter (checkRequirement cy cs ays staged) ueSlots =
        take (spec_unconsumedCount (spec_taken (cy * 10 + cs) ays staged)) ueSlots \<and>
      length (filter (checkRequirement cy cs ays staged) ueSlots) =
        min (spec_unconsumedCount (spec_taken (cy * 10 + cs) ays staged)) (length ueSlots))"
proof (intro conjI impI)
  let ?T = "spec_taken (cy * 10 + cs) ays staged"
  let ?N = "spec_unconsumedCount ?T"
  show "ueSlots = [''UE 1'', ''UE 2'', ''UE 3'', ''UE 4'', ''UE 5'', ''UE 6'', ''UE 7'', ''UE 8'',
              ''UE 9'', ''UE 10'']"
    by (rule ueSlots_eq)
  show "map (checkRequirement cy cs ays staged) ueSlots =
     map (\<lambda>i. ueSlots ! i \<in> ?T \<or> i < ?N) [0..<10]"
    by (rule elective_slots_map)
  assume none: "?T \<inter> set ueSlots = {}"
  have len: "length ueSlots = 10" by (simp add: ueSlots_eq)
  from none have "ueSlots ! i \<notin> ?T" if "i < 10" for i
    using that len nth_mem [of i ueSlots] by auto
  then have "map (\<lambda>i. ueSlots ! i \<in> ?T \<or> i < ?N) [0..<10] = map (\<lambda>i. i < ?N) [0..<10]"
    by simp
  then have m: "map (checkRequirement cy cs ays staged) ueSlots =
      map (\<lambda>i. i < ?N) [0..<length ueSlots]"
    by (simp add: elective_slots_map len)
  from filter_below_take [OF m]
  show f: "filter (checkRequirement cy cs ays staged) ueSlots = take ?N ueSlots" .
  show "length (filter (checkRequirement cy cs ays staged) ueSlots) = min ?N (length ueSlots)"
    by (simp add: f min.commute)
qed

theorem elective_overflow_allocation_witness:
  "parseCurrentSemester ''Y1S2'' = (1, 2) \<and>
   spec_taken 12 planMatcher stagedMatcher =
     {''CS1101S'', ''CS2040C'', ''GEC1021'', ''MA1301'', ''PC1201'', ''CS1231''} \<and>
   spec_consumed (spec_taken 12 planMatcher stagedMatcher) =
     {''CS1101S'', ''CS2040C'', ''GEC1021'', ''CS1231''} \<and>
   spec_unconsumedCount (spec_taken 12 planMatcher stagedMatcher) = 2 \<and>
   spec_taken 12 planMatcher stagedMatcher \<inter> set ueSlots = {} \<and>
   map (checkRequirement 1 2 planMatcher stagedMatcher) ueSlots =
     [True, True, False, False, False, False, False, False, False, False] \<and>
   filter (checkRequirement 1 2 planMatcher stagedMatcher) ueSlots = [''UE 1'', ''UE 2''] \<and>
   length (filter (checkRequirement 1 2 planMatcher stagedMatcher) ueSlots) = 2"
proof -
  note th = elective_overflow_allocation [of 1 2 planMatcher stagedMatcher]
  have d: "spec_taken 12 planMatcher stagedMatcher \<inter> set ueSlots = {}"
    by (simp add: planMatcher_spec_taken ueSlots_eq)
  have c: "spec_consumed (spec_taken 12 planMatcher stagedMatcher) =
     {''CS1101S'', ''CS2040C'', ''GEC1021'', ''CS1231''}"
    using consumedOf_spec [of "[''CS1101S'', ''CS2040C'', ''GEC1021'', ''MA1301'', ''PC1201'',
      ''CS1231'']"]
    by (simp add: planMatcher_spec_taken planMatcher_consumed)
  from th have "map (checkRequirement 1 2 planMatcher stagedMatcher) ueSlots =
     map (\<lambda>i. ueSlots ! i \<in> spec_taken 12 planMatcher stagedMatcher \<or> i < 2) [0..<10]"
    by (simp add: planMatcher_count)
  then have m: "map (checkRequirement 1 2 planMatcher stagedMatcher) ueSlots =
     [True, True, False, False, False, False, False, False, False, False]"
    by (simp add: upt_10 planMatcher_spec_taken ueSlots_eq)
  from th d have "filter (checkRequirement 1 2 planMatcher stagedMatcher) ueSlots = take 2 ueSlots"
    by (simp add: planMatcher_count)
  then have f: "filter (checkRequirement 1 2 planMatcher stagedMatcher) ueSlots
      = [''UE 1'', ''UE 2'']"
    by (simp add: ueSlots_eq)
  from d c m f pointer_examples(2) planMatcher_spec_taken planMatcher_count
  show ?thesis by simp
qed

section \<open>Claims about the plan mutations\<close>

text \<open>
  C5. The rejection does not say which semester holds the code: whether the second or the
  fourth semester holds \<^verbatim>\<open>CS1101S\<close> besides the source, a drop on the third semester
  produces the same toast, and the semester that shakes is the target of the drop.
\<close>

theorem duplicate_rejection_does_not_name_holder_counterexample:
  "holders ''CS1101S'' boardHeldInSecond = [1, 2] \<and>
   holders ''CS1101S'' boardHeldInFourth = [1, 4] \<and>
   toast (handleDrop 3 None boardHeldInSecond) =
     Some (''CS1101S already exists in your study plan'', ToastError) \<and>
   toast (handleDrop 3 None boardHeldInFourth) =
     Some (''CS1101S already exists in your study plan'', ToastError) \<and>
   shakingSemId (handleDrop 3 None boardHeldInSecond) = Some 3 \<and>
   shakingSemId (handleDrop 3 None boardHeldInFourth) = Some 3"
  by (simp add: holders_def boardHeldInSecond_def boardHeldInFourth_def emptyBoard_def
      handleDragStart_def fourSemesters_def mkYear_def mkSemester_def mkModule_def
      handleDrop_def targetFound_def moduleExistsInPlan_def alreadyExistsMessage_def)

text \<open>
  C5, as the code has it. When a module is dropped on an existing semester other than the
  one it was dragged from, and a semester other than the source already holds its code,
  the drop is rejected: the plan and the exempted courses are unchanged, the toast says
  that the code already exists in the study plan, without naming a semester, and the
  target semester shakes.
\<close>

theorem duplicate_drop_is_rejected_without_change:
  assumes "draggingModule b = Some d"
      and "\<not> (drag_source d = FromSemester \<and> drag_sourceId d = Some target)"
      and "\<exists>y \<in> set (academicYears b). \<exists>s \<in> set (semesters y). sem_id s = target"
      and "\<exists>y \<in> set (academicYears b). \<exists>s \<in> set (semesters y).
             \<not> (drag_source d = FromSemester \<and> Some (sem_id s) = drag_sourceId d) \<and>
             (\<exists>m \<in> set (modules s). code m = drag_code d)"
  shows "academicYears (handleDrop target idx b) = academicYears b \<and>
         stagedModules (handleDrop target idx b) = stagedModules b \<and>
         toast (handleDrop target idx b) =
           Some (drag_code d @ '' already exists in your study plan'', ToastError) \<and>
         shakingSemId (handleDrop target idx b) = Some target"
proof -
  from assms(3) have found: "targetFound target (academicYears b)"
    by (auto simp: targetFound_def list_ex_iff)
  from assms(4) have ex: "moduleExistsInPlan d (academicYears b)"
    unfolding moduleExistsInPlan_def list_ex_iff by (auto split: if_splits)
  from assms(2) have nr: "(drag_source d = FromSemester \<and> drag_sourceId d = Some target) = False"
    by simp
  from assms(1) found ex show ?thesis
    by (simp add: handleDrop_def alreadyExistsMessage_def nr)
qed

theorem duplicate_drop_is_rejected_witness:
  "academicYears (handleDrop 3 (Some 0) boardHeldInSecond) = academicYears boardHeldInSecond \<and>
   stagedModules (handleDrop 3 (Some 0) boardHeldInSecond) = stagedModules boardHeldInSecond \<and>
   toast (handleDrop 3 (Some 0) boardHeldInSecond) =
     Some (''CS1101S already exists in your study plan'', ToastError) \<and>
   shakingSemId (handleDrop 3 (Some 0) boardHeldInSecond) = Some 3"
proof -
  let ?d = "\<lparr>drag_code = ''CS1101S'', drag_source = FromSemester, drag_sourceId = Some 1\<rparr>"
  note ex = boardHeldInSecond_def emptyBoard_def handleDragStart_def fourSemesters_def
    mkYear_def mkSemester_def mkModule_def
  have a1: "draggingModule boardHeldInSecond = Some ?d"
    by (simp add: boardHeldInSecond_def handleDragStart_def)
  have a2: "\<not> (drag_source ?d = FromSemester \<and> drag_sourceId ?d = Some 3)"
    by simp
  have a3: "\<exists>y \<in> set (academicYears boardHeldInSecond). \<exists>s \<in> set (semesters y). sem_id s = 3"
    by (simp add: ex)
  have a4: "\<exists>y \<in> set (academicYears boardHeldInSecond). \<exists>s \<in> set (semesters y).
             \<not> (drag_source ?d = FromSemester \<and> Some (sem_id s) = drag_sourceId ?d) \<and>
             (\<exists>m \<in> set (modules s). code m = drag_code ?d)"
    by (simp add: ex)
  from duplicate_drop_is_rejected_without_change [OF a1 a2 a3 a4, of "Some 0"]
  show ?thesis by simp
qed

text \<open>
  C4. Two of the three mutations break the invariant. Adding an exempted course checks
  nothing: \<^verbatim>\<open>CS1101S\<close>, already placed in a semester, becomes an exempted course as
  well. The search filters the results against the semesters only: the exempted
  \<^verbatim>\<open>MA1301\<close> is offered and placed in a semester.
\<close>

theorem unchecked_additions_break_uniqueness_counterexample:
  "uniqueCodes (emptyBoard planSequential []) \<and>
   \<not> uniqueCodes (addExempted ''1767225600000'' (searchResult ''CS1101S'')
        (emptyBoard planSequential [])) \<and>
   uniqueCodes (emptyBoard planSequential [mkExempted ''MA1301'']) \<and>
   \<not> uniqueCodes (searchAdd 2 [searchResult ''MA1301''] 0
        (emptyBoard planSequential [mkExempted ''MA1301'']))"
proof -
  have sel: "academicYears (searchAdd 2 [searchResult ''MA1301''] 0
        (emptyBoard planSequential [mkExempted ''MA1301''])) =
      [mkYear 1 [mkSemester 1 ''Semester 1'' [mkModule ''CS1101S''],
         \<lparr>sem_id = 2, name = ''Semester 2'', sem_units = 8,
          modules = [mkModule ''CS2040S'', mkModule ''MA1301''], isExchange = False\<rparr>]]"
    by (simp add: searchAdd_def filterSearchResults_def handleModuleSelect_def mapSemesters_def
        selectSem_def emptyBoard_def planSequential_def searchResult_def mkYear_def
        mkSemester_def mkModule_def Let_def)
  have st: "stagedModules (searchAdd 2 [searchResult ''MA1301''] 0
        (emptyBoard planSequential [mkExempted ''MA1301''])) = [mkExempted ''MA1301'']"
    by (simp add: searchAdd_def handleModuleSelect_def emptyBoard_def Let_def)
  have pc: "planCodes planSequential = [''CS1101S'', ''CS2040S'']"
    by (simp add: planCodes_def placements_def planSequential_def mkYear_def mkSemester_def
        mkModule_def)
  have pcs: "planCodes (academicYears (searchAdd 2 [searchResult ''MA1301''] 0
        (emptyBoard planSequential [mkExempted ''MA1301'']))) = [''CS1101S'', ''CS2040S'', ''MA1301'']"
    by (simp add: sel planCodes_def placements_def mkYear_def mkSemester_def mkModule_def)
  have scs: "map staged_code (stagedModules (searchAdd 2 [searchResult ''MA1301''] 0
        (emptyBoard planSequential [mkExempted ''MA1301'']))) = [''MA1301'']"
    unfolding st by (simp add: mkExempted_def)
  have 1: "uniqueCodes (emptyBoard planSequential [])"
    by (simp add: uniqueCodes_def emptyBoard_def pc)
  have 2: "\<not> uniqueCodes (addExempted ''1767225600000'' (searchResult ''CS1101S'')
        (emptyBoard planSequential []))"
    by (simp add: uniqueCodes_def addExempted_def emptyBoard_def searchResult_def pc)
  have 3: "uniqueCodes (emptyBoard planSequential [mkExempted ''MA1301''])"
    by (simp add: uniqueCodes_def emptyBoard_def mkExempted_def pc)
  have 4: "\<not> uniqueCodes (searchAdd 2 [searchResult ''MA1301''] 0
        (emptyBoard planSequential [mkExempted ''MA1301'']))"
    unfolding uniqueCodes_def pcs scs by simp
  from 1 2 3 4 show ?thesis by blast
qed

text \<open>
  C4, as the code has it. On a board whose semester identifiers are distinct: a drop of a
  module that was dragged from the semester that holds it (or from the exempted courses)
  keeps every course code at most once across the plan and the exempted courses; a
  search-based addition keeps every course code at most once across the semesters; neither
  changes the semester identifiers; adding an exempted course leaves the semesters as they
  are. Starting a drag on a module of a semester gives the drag state that the drop relies
  on.
\<close>

theorem plan_mutations_keep_placed_codes_unique:
  assumes "distinct (semIds (academicYears b))"
  shows "(uniqueCodes b \<and> dragConsistent b \<longrightarrow> uniqueCodes (handleDrop target idx b)) \<and>
         (distinct (planCodes (academicYears b)) \<longrightarrow>
            distinct (planCodes (academicYears (searchAdd semId results k b)))) \<and>
         semIds (academicYears (handleDrop target idx b)) = semIds (academicYears b) \<and>
         semIds (academicYears (searchAdd semId results k b)) = semIds (academicYears b) \<and>
         academicYears (addExempted now r b) = academicYears b \<and>
         ((\<exists>y \<in> set (academicYears b). \<exists>s \<in> set (semesters y).
              sem_id s = sid \<and> (\<exists>m \<in> set (modules s). code m = c))
            \<longrightarrow> dragConsistent (handleDragStart c FromSemester (Some sid) b))"
proof (intro conjI impI)
  show "uniqueCodes (handleDrop target idx b)" if "uniqueCodes b \<and> dragConsistent b"
    using that handleDrop_keeps_unique [OF assms] by blast
  show "distinct (planCodes (academicYears (searchAdd semId results k b)))"
    if "distinct (planCodes (academicYears b))"
    using that by (rule searchAdd_keeps_distinct [OF assms])
  show "semIds (academicYears (handleDrop target idx b)) = semIds (academicYears b)"
    by (rule handleDrop_semIds)
  show "semIds (academicYears (searchAdd semId results k b)) = semIds (academicYears b)"
    by (rule searchAdd_semIds)
  show "academicYears (addExempted now r b) = academicYears b"
    by (simp add: addExempted_def)
  show "dragConsistent (handleDragStart c FromSemester (Some sid) b)"
    if "\<exists>y \<in> set (academicYears b). \<exists>s \<in> set (semesters y).
              sem_id s = sid \<and> (\<exists>m \<in> set (modules s). code m = c)"
    using that by (auto simp: dragConsistent_def handleDragStart_def list_ex_iff)
qed

theorem plan_mutations_keep_placed_codes_unique_witness:
  "distinct (semIds (academicYears boardDragging)) \<and>
   uniqueCodes boardDragging \<and> dragConsistent boardDragging \<and>
   distinct (planCodes (academicYears boardDragging)) \<and>
   uniqueCodes (handleDrop 2 (Some 0) boardDragging) \<and>
   distinct (planCodes (academicYears (searchAdd 2 [searchResult ''GEC1021''] 0 boardDragging)))"
proof -
  note ex = boardDragging_def handleDragStart_def emptyBoard_def planSequential_def mkYear_def
    mkSemester_def mkModule_def mkExempted_def
  have ids: "distinct (semIds (academicYears boardDragging))"
    by (simp add: ex semIds_def)
  have pc: "planCodes (academicYears boardDragging) = [''CS1101S'', ''CS2040S'']"
    by (simp add: ex planCodes_def placements_def)
  have u: "uniqueCodes boardDragging"
    by (simp add: uniqueCodes_def pc) (simp add: ex)
  have dc: "dragConsistent boardDragging"
    by (simp add: ex dragConsistent_def)
  have d: "distinct (planCodes (academicYears boardDragging))"
    by (simp add: pc)
  from plan_mutations_keep_placed_codes_unique [OF ids, of 2 "Some 0" 2
      "[searchResult ''GEC1021'']" 0] u dc d
  have "uniqueCodes (handleDrop 2 (Some 0) boardDragging) \<and>
   distinct (planCodes (academicYears (searchAdd 2 [searchResult ''GEC1021''] 0 boardDragging)))"
    by blast
  with ids u dc d show ?thesis by blast
qed

section \<open>Claims about the debounced validation\<close>

text \<open>
  C10. A run that is in flight when the plan changes is not discarded. The run that
  started on the plan with \<^verbatim>\<open>CS1101S\<close> and \<^verbatim>\<open>CS2040S\<close> in one semester completes
  after \<^verbatim>\<open>CS2040S\<close> has been moved to the next semester, and the maps it publishes
  hold the violation of the old plan, which the current plan does not have.
\<close>

lemma staleRun_eq:
  "staleRun =
     \<lparr>currentPlan = (planSequential, []), pendingTimer = Some (planSequential, []),
      inFlight = [], published = validate demoPrereqs demoOffered (planSameSemester, [])\<rparr>"
  by (simp add: staleRun_def runValidation_def initialValidation_def)

lemma runInFlight_eq:
  "runInFlight =
     \<lparr>currentPlan = (planSequential, []), pendingTimer = Some (planSequential, []),
      inFlight = [(planSameSemester, [])], published = (Map.empty, Map.empty)\<rparr>"
  by (simp add: runInFlight_def runValidation_def initialValidation_def)

lemma validate_examples:
  "fst (validate demoPrereqs demoOffered (planSameSemester, [])) ''CS2040S'' = Some [''CS1101S'']"
  "fst (validate demoPrereqs demoOffered (planSequential, [])) ''CS2040S'' = None"
  by (simp_all add: validate_def planSameSemester_def planSequential_def mkYear_def
      mkSemester_def mkModule_def checkAllConstraints_def checkYear_def checkSemester_def
      checkModule_def completedBefore_def semOrderOf_def semNumOf_def demoPrereqs_def
      demoOffered_def Let_def)

theorem stale_run_is_published_counterexample:
  "inFlight runInFlight = [(planSameSemester, [])] \<and>
   currentPlan runInFlight = (planSequential, []) \<and>
   staleRun = validationStep demoPrereqs demoOffered (RunCompletes 0) runInFlight \<and>
   currentPlan staleRun = (planSequential, []) \<and>
   fst (published staleRun) ''CS2040S'' = Some [''CS1101S''] \<and>
   fst (validate demoPrereqs demoOffered (currentPlan staleRun)) ''CS2040S'' = None"
  by (simp add: staleRun_eq runInFlight_eq validate_examples)

text \<open>
  C10, as the code has it. The cleanup of the effect clears only the timer: a run whose
  timer is still pending when the plan mutates never starts, since the pending timer is
  always the one of the current plan; a mutation leaves the runs in flight and the
  published maps as they are; and a run in flight publishes, when it completes, the maps
  computed from its own snapshot.
\<close>

theorem debounce_cancels_only_pending_runs:
  "timerIsCurrent (runValidation cp co evs (initialValidation p)) \<and>
   currentPlan (validationStep cp co (Mutate q) st) = q \<and>
   pendingTimer (validationStep cp co (Mutate q) st) = Some q \<and>
   inFlight (validationStep cp co (Mutate q) st) = inFlight st \<and>
   published (validationStep cp co (Mutate q) st) = published st \<and>
   (i < length (inFlight st) \<longrightarrow>
      published (validationStep cp co (RunCompletes i) st) = validate cp co (inFlight st ! i))"
proof -
  have "timerIsCurrent (initialValidation p)"
    by (simp add: timerIsCurrent_def initialValidation_def)
  then have "timerIsCurrent (runValidation cp co evs (initialValidation p))"
    by (rule runValidation_timerIsCurrent)
  then show ?thesis by simp
qed

theorem debounce_cancels_only_pending_runs_witness:
  "(0::nat) < length (inFlight runInFlight) \<and>
   published (validationStep demoPrereqs demoOffered (RunCompletes 0) runInFlight) =
     validate demoPrereqs demoOffered (planSameSemester, []) \<and>
   timerIsCurrent (runValidation demoPrereqs demoOffered
     [TimerFires, Mutate (planSequential, [])] (initialValidation (planSameSemester, [])))"
proof -
  have l: "(0::nat) < length (inFlight runInFlight)" by (simp add: runInFlight_eq)
  have n: "inFlight runInFlight ! 0 = (planSameSemester, [])" by (simp add: runInFlight_eq)
  from debounce_cancels_only_pending_runs [of demoPrereqs demoOffered
      "[TimerFires, Mutate (planSequential, [])]" "(planSameSemester, [])" _ runInFlight 0] l n
  show ?thesis by simp
qed


end
